theory Spec2Isabelle
  imports Main
begin

section \<open>The document model of src/document.js\<close>

text \<open>
  A \<open>Document\<close> is an array of strings (\<open>$lines\<close>), the detected newline string
  (\<open>$autoNewLine\<close>, \<open>""\<close> on the prototype) and the newline mode (\<open>$newLineMode\<close>,
  \<open>"auto"\<close> on the prototype). Rows, columns and indices are JavaScript numbers; the
  model takes the integral ones, as \<open>int\<close>. Every method takes the document and returns
  the document it leaves behind, also when it throws.
\<close>

record point =
  row :: int
  column :: int

record irange =
  rstart :: point
  rend :: point

datatype action = Insert | Remove

text \<open>A delta \<open>{start, end, action, lines}\<close>.\<close>

record delta =
  dstart :: point
  dend :: point
  daction :: action
  dlines :: "string list"

datatype newLineMode = Windows | Unix | Auto

text \<open>
  The notifications \<open>_signal("change", delta)\<close> and \<open>_signal("changeNewLineMode")\<close>.
\<close>

datatype notification = Change delta | ChangeNewLineMode

record document =
  lines :: "string list"
  autoNewLine :: string
  newLineMode :: newLineMode
  emitted :: "notification list"

text \<open>
  \<open>InvalidDelta\<close> is the validation failure of the splice primitive, \<open>TypeError\<close> a
  property read on \<open>undefined\<close>. \<open>LoopsForever\<close> is not an exception: it marks a call
  that does not return (the loop of \<open>$splitAndapplyLargeDelta\<close> when its window cannot
  advance).
\<close>

datatype error = InvalidDelta | TypeError | LoopsForever

type_synonym 'a result = "(error \<times> document) + ('a \<times> document)"

subsection \<open>JavaScript built-ins used by the source\<close>

text \<open>\<open>s.substring(a, b)\<close>: both indices are clamped to the string, and swapped when \<open>a > b\<close>.\<close>

definition substring :: "string \<Rightarrow> int \<Rightarrow> int \<Rightarrow> string" where
  "substring s a b =
     (let n = int (length s);
          a' = min (max a 0) n;
          b' = min (max b 0) n
      in take (nat (max a' b' - min a' b')) (drop (nat (min a' b')) s))"

text \<open>\<open>s.substring(a)\<close>.\<close>

definition substringFrom :: "string \<Rightarrow> int \<Rightarrow> string" where
  "substringFrom s a = drop (nat a) s"

text \<open>\<open>xs.slice(a, b)\<close>: a negative index counts from the end.\<close>

definition slice :: "'a list \<Rightarrow> int \<Rightarrow> int \<Rightarrow> 'a list" where
  "slice xs a b =
     (let n = int (length xs);
          f = (if a < 0 then max (n + a) 0 else min a n);
          t = (if b < 0 then max (n + b) 0 else min b n)
      in take (nat (t - f)) (drop (nat f) xs))"

text \<open>\<open>xs.slice(a)\<close>.\<close>

definition sliceFrom :: "'a list \<Rightarrow> int \<Rightarrow> 'a list" where
  "sliceFrom xs a = slice xs a (int (length xs))"

text \<open>\<open>xs.join(sep)\<close>.\<close>

fun join :: "string list \<Rightarrow> string \<Rightarrow> string" where
  "join [] sep = []"
| "join [x] sep = x"
| "join (x # y # ys) sep = x @ sep @ join (y # ys) sep"

text \<open>
  \<open>text.split(/\r\n|\r|\n/)\<close>: the text is cut at every newline sequence, a carriage
  return followed by a line feed being one sequence.
\<close>

fun splitAcc :: "string \<Rightarrow> string \<Rightarrow> string list" where
  "splitAcc acc [] = [rev acc]"
| "splitAcc acc (c # cs) =
     (if c = CHR 0x0D then
        (case cs of
           d # ds \<Rightarrow> if d = CHR 0x0A then rev acc # splitAcc [] ds else rev acc # splitAcc [] cs
         | [] \<Rightarrow> rev acc # splitAcc [] cs)
      else if c = CHR 0x0A then rev acc # splitAcc [] cs
      else splitAcc (c # acc) cs)"

definition split :: "string \<Rightarrow> string list" where
  "split text = splitAcc [] text"

subsection \<open>Reading the document\<close>

definition getLength :: "document \<Rightarrow> int" where
  "getLength doc = int (length (lines doc))"

text \<open>\<open>this.$lines[row] || ""\<close>.\<close>

definition getLine :: "document \<Rightarrow> int \<Rightarrow> string" where
  "getLine doc r =
     (if 0 \<le> r \<and> r < int (length (lines doc)) then lines doc ! nat r else [])"

definition getLines :: "document \<Rightarrow> int \<Rightarrow> int \<Rightarrow> string list" where
  "getLines doc firstRow lastRow = slice (lines doc) firstRow (lastRow + 1)"

definition getAllLines :: "document \<Rightarrow> string list" where
  "getAllLines doc = getLines doc 0 (getLength doc)"

definition getNewLineCharacter :: "document \<Rightarrow> string" where
  "getNewLineCharacter doc =
     (case newLineMode doc of
        Windows \<Rightarrow> [CHR 0x0D, CHR 0x0A]
      | Unix \<Rightarrow> [CHR 0x0A]
      | Auto \<Rightarrow> if autoNewLine doc = [] then [CHR 0x0A] else autoNewLine doc)"

definition getValue :: "document \<Rightarrow> string" where
  "getValue doc = join (getAllLines doc) (getNewLineCharacter doc)"

text \<open>
  Modelled from the spec: the publish/subscribe mechanism (lib/event_emitter) is not under
  src/. \<open>_signal\<close> delivers synchronously; the model appends the notification to the
  log \<open>emitted\<close> of the document and runs no subscriber.
\<close>

definition signal :: "notification \<Rightarrow> document \<Rightarrow> document" where
  "signal s doc = doc\<lparr>emitted := emitted doc @ [s]\<rparr>"

text \<open>
  Modelled from the spec: \<open>Range.comparePoints\<close> (range.js) is not under src/; it is the
  row-then-column comparator of two points, zero exactly when they are equal.
\<close>

definition comparePoints :: "point \<Rightarrow> point \<Rightarrow> int" where
  "comparePoints p1 p2 =
     (if row p1 - row p2 \<noteq> 0 then row p1 - row p2 else column p1 - column p2)"

subsection \<open>The line-splice primitive\<close>

text \<open>
  Modelled from the spec: the line-splice primitive (\<open>applyDelta\<close> of apply_delta.js) is
  not under src/. The spec says that it rewrites the line array in place from a delta and a
  skip-validation flag, and that it raises a validation failure for a malformed delta unless
  validation is skipped. A well-formed delta is the one of the spec's data model: its start
  is a position of the document, start is not after end, an insert has as many lines as the
  rows it spans plus one, and a remove ends at a position of the document and holds exactly
  the content between its two positions. An insert merges its first and last line into the
  line it splits; a remove leaves the part of the first row before its start joined to the
  part of the last row after its end. Outside the well-formed deltas the spec says nothing:
  there the model clamps a negative row to 0 and reads a missing line as the empty string.
\<close>

definition positionInDocument :: "string list \<Rightarrow> point \<Rightarrow> bool" where
  "positionInDocument docLines p \<longleftrightarrow>
     0 \<le> row p \<and> row p < int (length docLines) \<and>
     0 \<le> column p \<and> column p \<le> int (length (docLines ! nat (row p)))"

definition lineAt :: "string list \<Rightarrow> int \<Rightarrow> string" where
  "lineAt docLines r = (if 0 \<le> r \<and> r < int (length docLines) then docLines ! nat r else [])"

definition contentBetween :: "string list \<Rightarrow> point \<Rightarrow> point \<Rightarrow> string list" where
  "contentBetween docLines s e =
     (if row s = row e
      then [take (nat (column e - column s)) (drop (nat (column s)) (lineAt docLines (row s)))]
      else drop (nat (column s)) (lineAt docLines (row s))
             # take (nat (row e - row s - 1)) (drop (nat (row s + 1)) docLines)
             @ [take (nat (column e)) (lineAt docLines (row e))])"

definition validDelta :: "string list \<Rightarrow> delta \<Rightarrow> bool" where
  "validDelta docLines d \<longleftrightarrow>
     positionInDocument docLines (dstart d) \<and>
     comparePoints (dstart d) (dend d) \<le> 0 \<and>
     (case daction d of
        Insert \<Rightarrow> int (length (dlines d)) - 1 = row (dend d) - row (dstart d)
      | Remove \<Rightarrow> positionInDocument docLines (dend d) \<and>
                 dlines d = contentBetween docLines (dstart d) (dend d))"

text \<open>The inserted lines with the two halves of the split line merged onto their ends.\<close>

definition mergeEnds :: "string \<Rightarrow> string list \<Rightarrow> string \<Rightarrow> string list" where
  "mergeEnds before ls after =
     (case ls of
        [] \<Rightarrow> [before @ after]
      | [l] \<Rightarrow> [before @ l @ after]
      | l # ls' \<Rightarrow> (before @ l) # butlast ls' @ [last ls' @ after])"

definition spliceLines :: "string list \<Rightarrow> delta \<Rightarrow> string list" where
  "spliceLines docLines d =
     (let r = nat (row (dstart d));
          line = lineAt docLines (row (dstart d));
          before = take (nat (column (dstart d))) line
      in case daction d of
           Insert \<Rightarrow>
             take r docLines
               @ mergeEnds before (dlines d) (drop (nat (column (dstart d))) line)
               @ drop (Suc r) docLines
         | Remove \<Rightarrow>
             take r docLines
               @ [before @ drop (nat (column (dend d))) (lineAt docLines (row (dend d)))]
               @ drop (Suc (nat (row (dend d)))) docLines)"

definition applyDeltaPrim :: "string list \<Rightarrow> delta \<Rightarrow> bool \<Rightarrow> error + string list" where
  "applyDeltaPrim docLines d doNotValidate =
     (if \<not> doNotValidate \<and> \<not> validDelta docLines d then Inl InvalidDelta
      else Inr (spliceLines docLines d))"

subsection \<open>Applying a delta\<close>

definition pos :: "int \<Rightarrow> int \<Rightarrow> point" where
  "pos r c = \<lparr>row = r, column = c\<rparr>"

definition clonePos :: "point \<Rightarrow> point" where
  "clonePos p = \<lparr>row = row p, column = column p\<rparr>"

text \<open>
  The guard of \<open>applyDelta\<close>: \<open>delta.lines.length <= 1 && !delta.lines[0]\<close> for an
  insert (an empty array has no first line, and \<open>!undefined\<close> holds), and
  \<open>!Range.comparePoints(delta.start, delta.end)\<close> for a remove.
\<close>

definition isNoop :: "delta \<Rightarrow> bool" where
  "isNoop d =
     (if daction d = Insert
      then length (dlines d) \<le> 1 \<and> (case dlines d of [] \<Rightarrow> True | l # _ \<Rightarrow> l = [])
      else comparePoints (dstart d) (dend d) = 0)"

text \<open>
  \<open>applyDelta\<close> and \<open>$splitAndapplyLargeDelta\<close> call each other. \<open>splitLoop\<close> is the
  \<open>for\<close> loop of \<open>$splitAndapplyLargeDelta\<close> together with the statements after it: its
  arguments are the variables \<open>lines\<close>, \<open>row\<close>, \<open>column\<close>, \<open>from\<close> and \<open>to\<close> of the
  loop, and \<open>l = lines.length - MAX + 1\<close> is computed from \<open>lines\<close> and \<open>MAX\<close>
  (written \<open>MAX'\<close>), which the loop never assigns. When \<open>MAX \<le> 1\<close> the step \<open>to += MAX - 1\<close> never moves the
  window forward and an entered loop does not end: the model returns \<open>LoopsForever\<close> there.
  The result carries the delta as the call leaves the caller's object.
\<close>

function applyDelta :: "document \<Rightarrow> delta \<Rightarrow> bool \<Rightarrow> delta result"
  and splitLoop ::
    "document \<Rightarrow> delta \<Rightarrow> int \<Rightarrow> string list \<Rightarrow> int \<Rightarrow> int \<Rightarrow> int \<Rightarrow> int \<Rightarrow> delta result"
where
  "applyDelta doc d doNotValidate =
     (if isNoop d then Inr (d, doc)
      else if daction d = Insert \<and> length (dlines d) > 20000
      then splitLoop doc d 20000 (dlines d) (row (dstart d)) (column (dstart d)) 0 0
      else (case applyDeltaPrim (lines doc) d doNotValidate of
              Inl e \<Rightarrow> Inl (e, doc)
            | Inr ls \<Rightarrow> Inr (d, signal (Change d) (doc\<lparr>lines := ls\<rparr>))))"
| "splitLoop doc d MAX' ls r c from to =
     (if from < int (length ls) - MAX' + 1
      then (if MAX' \<le> 1 then Inl (LoopsForever, doc)
            else (case applyDelta doc
                         \<lparr>dstart = pos (r + from) c, dend = pos (r + (to + (MAX' - 1))) 0,
                          daction = daction d,
                          dlines = slice ls from (to + (MAX' - 1)) @ [[]]\<rparr> True of
                    Inl e \<Rightarrow> Inl e
                  | Inr (_, doc') \<Rightarrow>
                      splitLoop doc' d MAX' ls r 0 (to + (MAX' - 1)) (to + (MAX' - 1))))
      else applyDelta doc
             (d\<lparr>dlines := sliceFrom ls from,
                dstart := (dstart d)\<lparr>row := r + from, column := c\<rparr>\<rparr>) True)"
  by pat_completeness auto

termination
proof (relation "inv_image (less_than <*lex*> less_than)
     (\<lambda>x. case x of
        Inl (doc, d, v) \<Rightarrow> (if length (dlines d) \<le> 20000 then 0 else 2, 0::nat)
      | Inr (doc, d, m, ls, r, c, f, t) \<Rightarrow>
          (if f = t \<and> m \<le> 20000 then 1 else (3::nat),
           nat (max (int (length ls) - m + 1 - t) (int (length ls) - m + 1 - f))))",
    goal_cases)
  case 1
  show ?case by (intro wf_inv_image wf_lex_prod wf_less_than)
next
  case 2
  then show ?case by simp
next
  case (3 doc d m ls r c f t)
  have "f \<le> t + (m - 1) \<Longrightarrow> length (slice ls f (t + (m - 1))) \<le> nat (t + (m - 1) - f)"
    by (auto simp: slice_def Let_def)
  with 3 show ?case by auto
next
  case 4
  then show ?case by auto
next
  case (5 doc d m ls r c f t)
  then have "length (sliceFrom ls f) \<le> nat (m - 1)"
    by (auto simp: sliceFrom_def slice_def Let_def)
  with 5 show ?case by auto
qed

declare applyDelta.simps [simp del] splitLoop.simps [simp del]

text \<open>
  \<open>$splitAndapplyLargeDelta(delta, MAX)\<close> enters the loop with \<open>from = to = 0\<close>;
  \<open>applyDelta\<close> calls it with \<open>MAX = 20000\<close>.
\<close>

definition splitAndapplyLargeDelta :: "document \<Rightarrow> delta \<Rightarrow> int \<Rightarrow> delta result" where
  "splitAndapplyLargeDelta doc d MAX' =
     splitLoop doc d MAX' (dlines d) (row (dstart d)) (column (dstart d)) 0 0"

text \<open>
  \<open>$safeApplyDelta\<close>: the delta is applied (validated: \<open>applyDelta\<close> is called without
  its second argument) when its rows fit the current line count, and dropped otherwise.
\<close>

definition safeApplyDelta :: "document \<Rightarrow> delta \<Rightarrow> delta result" where
  "safeApplyDelta doc d =
     (let docLength = int (length (lines doc))
      in if daction d = Remove \<and> row (dstart d) < docLength \<and> row (dend d) < docLength
            \<or> daction d = Insert \<and> row (dstart d) \<le> docLength
         then applyDelta doc d False
         else Inr (d, doc))"

text \<open>
  \<open>revertDelta\<close> passes a fresh object to \<open>$safeApplyDelta\<close>, so what that call leaves
  in it is dropped.
\<close>

definition revertDelta :: "document \<Rightarrow> delta \<Rightarrow> unit result" where
  "revertDelta doc d =
     (case safeApplyDelta doc
             \<lparr>dstart = clonePos (dstart d), dend = clonePos (dend d),
              daction = (if daction d = Insert then Remove else Insert),
              dlines = sliceFrom (dlines d) 0\<rparr> of
        Inl e \<Rightarrow> Inl e
      | Inr (_, doc') \<Rightarrow> Inr ((), doc'))"

text \<open>
  \<open>applyDeltas\<close> and \<open>revertDeltas\<close>; an exception leaves the loop with the deltas
  applied so far in the document.
\<close>

fun applyDeltas :: "document \<Rightarrow> delta list \<Rightarrow> unit result" where
  "applyDeltas doc [] = Inr ((), doc)"
| "applyDeltas doc (d # ds) =
     (case applyDelta doc d False of
        Inl e \<Rightarrow> Inl e
      | Inr (_, doc') \<Rightarrow> applyDeltas doc' ds)"

fun revertDeltasFrom :: "document \<Rightarrow> delta list \<Rightarrow> unit result" where
  "revertDeltasFrom doc [] = Inr ((), doc)"
| "revertDeltasFrom doc (d # ds) =
     (case revertDelta doc d of
        Inl e \<Rightarrow> Inl e
      | Inr (_, doc') \<Rightarrow> revertDeltasFrom doc' ds)"

definition revertDeltas :: "document \<Rightarrow> delta list \<Rightarrow> unit result" where
  "revertDeltas doc deltas = revertDeltasFrom doc (rev deltas)"

subsection \<open>Positions and ranges\<close>

text \<open>\<open>clippedPos(row, column)\<close>; either argument may be \<open>undefined\<close>.\<close>

definition clippedPos :: "document \<Rightarrow> int option \<Rightarrow> int option \<Rightarrow> point" where
  "clippedPos doc r c =
     (let len = getLength doc;
          (r', c') = (case r of
                        None \<Rightarrow> (len, c)
                      | Some r0 \<Rightarrow> if r0 < 0 then (0, c)
                                  else if r0 \<ge> len then (len - 1, None)
                                  else (r0, c));
          line = getLine doc r';
          c'' = (case c' of None \<Rightarrow> int (length line) | Some c0 \<Rightarrow> c0)
      in \<lparr>row = r', column = min (max c'' 0) (int (length line))\<rparr>)"

definition getLinesForRange :: "document \<Rightarrow> irange \<Rightarrow> string list" where
  "getLinesForRange doc rg =
     (if row (rstart rg) = row (rend rg)
      then [substring (getLine doc (row (rstart rg))) (column (rstart rg)) (column (rend rg))]
      else
        let lines0 = getLines doc (row (rstart rg)) (row (rend rg));
            lines1 = (case lines0 of
                        [] \<Rightarrow> [substringFrom [] (column (rstart rg))]
                      | x # xs \<Rightarrow> substringFrom x (column (rstart rg)) # xs);
            l = int (length lines1) - 1
        in if row (rend rg) - row (rstart rg) = l
           then lines1[nat l := substring (lines1 ! nat l) 0 (column (rend rg))]
           else lines1)"

definition getTextRange :: "document \<Rightarrow> irange \<Rightarrow> string" where
  "getTextRange doc rg = join (getLinesForRange doc rg) (getNewLineCharacter doc)"

subsection \<open>Newline detection\<close>

text \<open>
  \<open>text.match(/^.*?(\r\n|\r|\n)/m)\<close>: the dot matches no carriage return and no line
  feed, so the group is the first newline sequence of the text, if there is one.
\<close>

fun firstNewLine :: "string \<Rightarrow> string option" where
  "firstNewLine [] = None"
| "firstNewLine (c # cs) =
     (if c = CHR 0x0D then
        (case cs of
           d # _ \<Rightarrow> if d = CHR 0x0A then Some [CHR 0x0D, CHR 0x0A] else Some [CHR 0x0D]
         | [] \<Rightarrow> Some [CHR 0x0D])
      else if c = CHR 0x0A then Some [CHR 0x0A]
      else firstNewLine cs)"

definition detectNewLine :: "document \<Rightarrow> string \<Rightarrow> document" where
  "detectNewLine doc text =
     signal ChangeNewLineMode
       (doc\<lparr>autoNewLine := (case firstNewLine text of Some m \<Rightarrow> m | None \<Rightarrow> [CHR 0x0A])\<rparr>)"

definition setNewLineMode :: "document \<Rightarrow> newLineMode \<Rightarrow> document" where
  "setNewLineMode doc m =
     (if newLineMode doc = m then doc else signal ChangeNewLineMode (doc\<lparr>newLineMode := m\<rparr>))"

subsection \<open>Inserting and removing\<close>

definition insertMergedLines :: "document \<Rightarrow> point \<Rightarrow> string list \<Rightarrow> point result" where
  "insertMergedLines doc position ls =
     (let start = clippedPos doc (Some (row position)) (Some (column position))
      in if ls = [] then Inl (TypeError, doc)
         else
           let end = \<lparr>row = row start + int (length ls) - 1,
                      column = (if length ls = 1 then column start else 0) + int (length (last ls))\<rparr>
           in case applyDelta doc \<lparr>dstart = start, dend = end, daction = Insert, dlines = ls\<rparr> False of
                Inl e \<Rightarrow> Inl e
              | Inr (_, doc') \<Rightarrow> Inr (clonePos end, doc'))"

definition insertText :: "document \<Rightarrow> point \<Rightarrow> string \<Rightarrow> point result" where
  "insertText doc position text =
     insertMergedLines (if getLength doc \<le> 1 then detectNewLine doc text else doc)
       position (split text)"

definition insertInLine :: "document \<Rightarrow> point \<Rightarrow> string \<Rightarrow> point result" where
  "insertInLine doc position text =
     (let start = clippedPos doc (Some (row position)) (Some (column position));
          end = pos (row position) (column position + int (length text))
      in case applyDelta doc \<lparr>dstart = start, dend = end, daction = Insert, dlines = [text]\<rparr> True of
           Inl e \<Rightarrow> Inl e
         | Inr (_, doc') \<Rightarrow> Inr (clonePos end, doc'))"

definition insertFullLines :: "document \<Rightarrow> int \<Rightarrow> string list \<Rightarrow> unit result" where
  "insertFullLines doc r0 ls =
     (let r = min (max r0 0) (getLength doc)
      in if r < getLength doc
         then (case insertMergedLines doc \<lparr>row = r, column = 0\<rparr> (ls @ [[]]) of
                 Inl e \<Rightarrow> Inl e
               | Inr (_, doc') \<Rightarrow> Inr ((), doc'))
         else if r - 1 < 0 then Inl (TypeError, doc)
         else (case insertMergedLines doc
                      \<lparr>row = r - 1, column = int (length (lines doc ! nat (r - 1)))\<rparr> ([] # ls) of
                 Inl e \<Rightarrow> Inl e
               | Inr (_, doc') \<Rightarrow> Inr ((), doc')))"

definition remove :: "document \<Rightarrow> irange \<Rightarrow> point result" where
  "remove doc rg =
     (let start = clippedPos doc (Some (row (rstart rg))) (Some (column (rstart rg)));
          end = clippedPos doc (Some (row (rend rg))) (Some (column (rend rg)))
      in case applyDelta doc
                \<lparr>dstart = start, dend = end, daction = Remove,
                 dlines = getLinesForRange doc \<lparr>rstart = start, rend = end\<rparr>\<rparr> False of
           Inl e \<Rightarrow> Inl e
         | Inr (_, doc') \<Rightarrow> Inr (clonePos start, doc'))"

definition removeInLine :: "document \<Rightarrow> int \<Rightarrow> int \<Rightarrow> int \<Rightarrow> point result" where
  "removeInLine doc r startColumn endColumn =
     (let start = clippedPos doc (Some r) (Some startColumn);
          end = clippedPos doc (Some r) (Some endColumn)
      in case applyDelta doc
                \<lparr>dstart = start, dend = end, daction = Remove,
                 dlines = getLinesForRange doc \<lparr>rstart = start, rend = end\<rparr>\<rparr> True of
           Inl e \<Rightarrow> Inl e
         | Inr (_, doc') \<Rightarrow> Inr (clonePos start, doc'))"

definition removeFullLines :: "document \<Rightarrow> int \<Rightarrow> int \<Rightarrow> string list result" where
  "removeFullLines doc firstRow0 lastRow0 =
     (let firstRow = min (max 0 firstRow0) (getLength doc - 1);
          lastRow = min (max 0 lastRow0) (getLength doc - 1);
          deleteFirstNewLine = (lastRow = getLength doc - 1 \<and> firstRow > 0);
          deleteLastNewLine = (lastRow < getLength doc - 1);
          startRow = (if deleteFirstNewLine then firstRow - 1 else firstRow);
          startCol = (if deleteFirstNewLine then int (length (getLine doc startRow)) else 0);
          endRow = (if deleteLastNewLine then lastRow + 1 else lastRow);
          endCol = (if deleteLastNewLine then 0 else int (length (getLine doc endRow)));
          rg = \<lparr>rstart = \<lparr>row = startRow, column = startCol\<rparr>,
                rend = \<lparr>row = endRow, column = endCol\<rparr>\<rparr>;
          deletedLines = slice (lines doc) firstRow (lastRow + 1)
      in case applyDelta doc
                \<lparr>dstart = rstart rg, dend = rend rg, daction = Remove,
                 dlines = getLinesForRange doc rg\<rparr> False of
           Inl e \<Rightarrow> Inl e
         | Inr (_, doc') \<Rightarrow> Inr (deletedLines, doc'))"

definition removeNewLine :: "document \<Rightarrow> int \<Rightarrow> unit result" where
  "removeNewLine doc r =
     (if r < getLength doc - 1 \<and> r \<ge> 0
      then (case applyDelta doc
                   \<lparr>dstart = pos r (int (length (getLine doc r))), dend = pos (r + 1) 0,
                    daction = Remove, dlines = [[], []]\<rparr> False of
              Inl e \<Rightarrow> Inl e
            | Inr (_, doc') \<Rightarrow> Inr ((), doc'))
      else Inr ((), doc))"

text \<open>
  \<open>replace\<close>; \<open>range.isEmpty()\<close> of range.js holds when the two points of the range are
  equal.
\<close>

definition replace :: "document \<Rightarrow> irange \<Rightarrow> string \<Rightarrow> point result" where
  "replace doc rg text =
     (if length text = 0 \<and> rstart rg = rend rg then Inr (rstart rg, doc)
      else if text = getTextRange doc rg then Inr (rend rg, doc)
      else (case remove doc rg of
              Inl e \<Rightarrow> Inl e
            | Inr (_, doc') \<Rightarrow>
                if text \<noteq> [] then insertText doc' (rstart rg) text else Inr (rstart rg, doc')))"

definition setValue :: "document \<Rightarrow> string \<Rightarrow> unit result" where
  "setValue doc text =
     (let len = getLength doc - 1
      in case remove doc \<lparr>rstart = \<lparr>row = 0, column = 0\<rparr>,
                          rend = \<lparr>row = len, column = int (length (getLine doc len))\<rparr>\<rparr> of
           Inl e \<Rightarrow> Inl e
         | Inr (_, doc') \<Rightarrow>
             (case insertText doc' \<lparr>row = 0, column = 0\<rparr> text of
                Inl e \<Rightarrow> Inl e
              | Inr (_, doc'') \<Rightarrow> Inr ((), doc'')))"

subsection \<open>Construction\<close>

datatype textOrLines = Text string | Lines "string list"

definition emptyDocument :: document where
  "emptyDocument = \<lparr>lines = [[]], autoNewLine = [], newLineMode = Auto, emitted = []\<rparr>"

definition Document :: "textOrLines \<Rightarrow> unit result" where
  "Document textOrLines =
     (case textOrLines of
        Text text \<Rightarrow>
          if length text = 0 then Inr ((), emptyDocument)
          else (case insertText emptyDocument \<lparr>row = 0, column = 0\<rparr> text of
                  Inl e \<Rightarrow> Inl e
                | Inr (_, doc) \<Rightarrow> Inr ((), doc))
      | Lines ls \<Rightarrow>
          if length ls = 0 then Inr ((), emptyDocument)
          else (case insertMergedLines emptyDocument \<lparr>row = 0, column = 0\<rparr> ls of
                  Inl e \<Rightarrow> Inl e
                | Inr (_, doc) \<Rightarrow> Inr ((), doc)))"

subsection \<open>Index and position\<close>

text \<open>
  The loop of \<open>indexToPosition\<close> with the statement after it. Reading \<open>lines[i].length\<close>
  at a row that is not in the array throws.
\<close>

function indexToPositionLoop :: "string list \<Rightarrow> int \<Rightarrow> int \<Rightarrow> int \<Rightarrow> error + point" where
  "indexToPositionLoop ls newlineLength index i =
     (let l = int (length ls)
      in if i < l
         then (if i < 0 then Inl TypeError
               else let index' = index - (int (length (ls ! nat i)) + newlineLength)
                    in if index' < 0
                       then Inr \<lparr>row = i, column = index' + int (length (ls ! nat i)) + newlineLength\<rparr>
                       else indexToPositionLoop ls newlineLength index' (i + 1))
         else (if l - 1 < 0 then Inl TypeError
               else Inr \<lparr>row = l - 1,
                        column = index + int (length (ls ! nat (l - 1))) + newlineLength\<rparr>))"
  by pat_completeness auto
termination
  by (relation "measure (\<lambda>(ls, n, index, i). nat (int (length ls) - i))") auto

declare indexToPositionLoop.simps [simp del]

definition indexToPosition :: "document \<Rightarrow> int \<Rightarrow> int option \<Rightarrow> error + point" where
  "indexToPosition doc index startRow =
     indexToPositionLoop (lines doc) (int (length (getNewLineCharacter doc))) index
       (case startRow of None \<Rightarrow> 0 | Some r \<Rightarrow> r)"

function positionToIndexLoop :: "string list \<Rightarrow> int \<Rightarrow> int \<Rightarrow> int \<Rightarrow> int \<Rightarrow> error + int" where
  "positionToIndexLoop ls newlineLength r index i =
     (if i < r
      then (if i < 0 \<or> i \<ge> int (length ls) then Inl TypeError
            else positionToIndexLoop ls newlineLength r
                   (index + (int (length (ls ! nat i)) + newlineLength)) (i + 1))
      else Inr index)"
  by pat_completeness auto
termination
  by (relation "measure (\<lambda>(ls, n, r, index, i). nat (r - i))") auto

declare positionToIndexLoop.simps [simp del]

definition positionToIndex :: "document \<Rightarrow> point \<Rightarrow> int option \<Rightarrow> error + int" where
  "positionToIndex doc p startRow =
     (case positionToIndexLoop (lines doc) (int (length (getNewLineCharacter doc)))
             (min (row p) (int (length (lines doc)))) 0
             (case startRow of None \<Rightarrow> 0 | Some r \<Rightarrow> r) of
        Inl e \<Rightarrow> Inl e
      | Inr index \<Rightarrow> Inr (index + column p))"

subsection \<open>Where the loop of \<open>$splitAndapplyLargeDelta\<close> stops\<close>

text \<open>
  \<open>from\<close> moves from \<open>f\<close> in steps of \<open>MAX - 1\<close> while \<open>from < L - MAX + 1\<close>;
  \<open>tailStart L MAX f\<close> is its value when the loop ends (for \<open>f < L\<close> and
  \<open>MAX \<ge> 2\<close>).
\<close>

definition tailStart :: "int \<Rightarrow> int \<Rightarrow> int \<Rightarrow> int" where
  "tailStart L m f = f + ((L - f - 1) div (m - 1)) * (m - 1)"

subsection \<open>A caller that applies a delta and reverts it\<close>


definition docOf :: "'a result \<Rightarrow> document" where
  "docOf r = (case r of Inl (e, doc) \<Rightarrow> doc | Inr (x, doc) \<Rightarrow> doc)"

subsection \<open>Sequences of operations\<close>

text \<open>
  The mutating methods of a document, as values, and the document each leaves behind,
  whether it returned or threw; \<open>fold perform ops doc\<close> runs a sequence of them.
\<close>

datatype operation =
    OpInsert point string
  | OpInsertInLine point string
  | OpInsertMergedLines point "string list"
  | OpInsertFullLines int "string list"
  | OpRemove irange
  | OpRemoveInLine int int int
  | OpRemoveFullLines int int
  | OpRemoveNewLine int
  | OpReplace irange string
  | OpSetValue string
  | OpSetNewLineMode newLineMode
  | OpApplyDelta delta bool
  | OpApplyDeltas "delta list"
  | OpRevertDelta delta
  | OpRevertDeltas "delta list"

fun perform :: "operation \<Rightarrow> document \<Rightarrow> document" where
  "perform (OpInsert p t) doc = docOf (insertText doc p t)"
| "perform (OpInsertInLine p t) doc = docOf (insertInLine doc p t)"
| "perform (OpInsertMergedLines p ls) doc = docOf (insertMergedLines doc p ls)"
| "perform (OpInsertFullLines r ls) doc = docOf (insertFullLines doc r ls)"
| "perform (OpRemove rg) doc = docOf (remove doc rg)"
| "perform (OpRemoveInLine r a b) doc = docOf (removeInLine doc r a b)"
| "perform (OpRemoveFullLines a b) doc = docOf (removeFullLines doc a b)"
| "perform (OpRemoveNewLine r) doc = docOf (removeNewLine doc r)"
| "perform (OpReplace rg t) doc = docOf (replace doc rg t)"
| "perform (OpSetValue t) doc = docOf (setValue doc t)"
| "perform (OpSetNewLineMode m) doc = setNewLineMode doc m"
| "perform (OpApplyDelta d v) doc = docOf (applyDelta doc d v)"
| "perform (OpApplyDeltas ds) doc = docOf (applyDeltas doc ds)"
| "perform (OpRevertDelta d) doc = docOf (revertDelta doc d)"
| "perform (OpRevertDeltas ds) doc = docOf (revertDeltas doc ds)"

subsection \<open>Deltas and points as objects\<close>

text \<open>
  A delta and its \<open>start\<close> and \<open>end\<close> are objects, and \<open>$splitAndapplyLargeDelta\<close> assigns
  to fields of the delta it is given. To say which objects a call writes to, the methods
  that handle deltas are transcribed a second time over a store of objects. An address is
  an index into the store. A delta object holds the addresses of its \<open>start\<close> and \<open>end\<close>, its
  action and its lines; an object literal (\<open>{...}\<close>, \<open>pos\<close>, \<open>clonePos\<close>) is allocated at the
  end of the store.

  The \<open>lines\<close> arrays are held by value: no statement of these methods writes into an array
  that a delta refers to (\<open>chunk.push("")\<close> writes into the array that \<open>slice\<close> has just
  made, and \<open>delta.lines = lines.slice(from)\<close> makes the field refer to another array), so
  two deltas that share an array cannot tell. The splice primitive and the listeners of
  \<open>change\<close> are taken to read the delta only, as the specification describes them.
\<close>

datatype obj = PointObj point | DeltaObj nat nat action "string list"

type_synonym store = "obj list"

type_synonym sresult = "(error \<times> document \<times> store) + (document \<times> store)"

text \<open>
  Reading through an address: \<open>pointAt\<close> and \<open>deltaAt\<close> give nothing where no object of that
  kind lives, and \<open>readDelta\<close> reads a delta with both of its points, as the value the other
  sections work on. Reading a field of something that is not there is a \<open>TypeError\<close> below.
\<close>

definition pointAt :: "store \<Rightarrow> nat \<Rightarrow> point option" where
  "pointAt st a =
     (if a < length st then (case st ! a of PointObj p \<Rightarrow> Some p | DeltaObj _ _ _ _ \<Rightarrow> None)
      else None)"

definition deltaAt :: "store \<Rightarrow> nat \<Rightarrow> (nat \<times> nat \<times> action \<times> string list) option" where
  "deltaAt st a =
     (if a < length st
      then (case st ! a of PointObj _ \<Rightarrow> None | DeltaObj s e act ls \<Rightarrow> Some (s, e, act, ls))
      else None)"

definition readDelta :: "store \<Rightarrow> nat \<Rightarrow> delta option" where
  "readDelta st a =
     (case deltaAt st a of
        None \<Rightarrow> None
      | Some (s, e, act, ls) \<Rightarrow>
          (case pointAt st s of
             None \<Rightarrow> None
           | Some ps \<Rightarrow>
               (case pointAt st e of
                  None \<Rightarrow> None
                | Some pe \<Rightarrow> Some \<lparr>dstart = ps, dend = pe, daction = act, dlines = ls\<rparr>)))"

text \<open>
  \<open>applyDelta\<close> and the loop of \<open>$splitAndapplyLargeDelta\<close> on the delta at address \<open>a\<close>. Each
  turn of the loop allocates the two points and the delta of the chunk; after the loop the
  \<open>lines\<close> field of the delta at \<open>a\<close> and the \<open>row\<close> and \<open>column\<close> of its start point are
  assigned in place. An exception carries the document and the store as they are when it
  is thrown.

  \<open>applyDeltaS\<close> reads the delta with both of its points on entry and throws when one is
  missing. The source throws at its first read through the missing point, which for some
  deltas comes later or not at all; \<open>revertDelta\<close> reads both points in \<open>clonePos\<close> before
  anything else, and the deltas it and the loop pass on have both.
\<close>

function applyDeltaS :: "store \<Rightarrow> document \<Rightarrow> nat \<Rightarrow> bool \<Rightarrow> sresult"
  and splitLoopS ::
    "store \<Rightarrow> document \<Rightarrow> nat \<Rightarrow> int \<Rightarrow> string list \<Rightarrow> int \<Rightarrow> int \<Rightarrow> int \<Rightarrow> int \<Rightarrow> sresult"
where
  "applyDeltaS st doc a doNotValidate =
     (case readDelta st a of
        None \<Rightarrow> Inl (TypeError, doc, st)
      | Some d \<Rightarrow>
          if isNoop d then Inr (doc, st)
          else if daction d = Insert \<and> length (dlines d) > 20000
          then splitLoopS st doc a 20000 (dlines d) (row (dstart d)) (column (dstart d)) 0 0
          else (case applyDeltaPrim (lines doc) d doNotValidate of
                  Inl e \<Rightarrow> Inl (e, doc, st)
                | Inr ls \<Rightarrow> Inr (signal (Change d) (doc\<lparr>lines := ls\<rparr>), st)))"
| "splitLoopS st doc a MAX' ls r c from to =
     (case deltaAt st a of
        None \<Rightarrow> Inl (TypeError, doc, st)
      | Some (s, e, act, _) \<Rightarrow>
          if from < int (length ls) - MAX' + 1
          then (if MAX' \<le> 1 then Inl (LoopsForever, doc, st)
                else (case applyDeltaS
                             (st @ [PointObj (pos (r + from) c), PointObj (pos (r + (to + (MAX' - 1))) 0),
                                    DeltaObj (length st) (length st + 1) act
                                      (slice ls from (to + (MAX' - 1)) @ [[]])])
                             doc (length st + 2) True of
                        Inl err \<Rightarrow> Inl err
                      | Inr (doc', st') \<Rightarrow>
                          splitLoopS st' doc' a MAX' ls r 0 (to + (MAX' - 1)) (to + (MAX' - 1))))
          else (case pointAt (st[a := DeltaObj s e act (sliceFrom ls from)]) s of
                  None \<Rightarrow> Inl (TypeError, doc, st[a := DeltaObj s e act (sliceFrom ls from)])
                | Some p \<Rightarrow>
                    applyDeltaS
                      ((st[a := DeltaObj s e act (sliceFrom ls from)])
                         [s := PointObj (p\<lparr>row := r + from, column := c\<rparr>)])
                      doc a True))"
  by pat_completeness auto
termination
proof (relation "inv_image (less_than <*lex*> less_than)
     (\<lambda>x. case x of
        Inl (st, doc, a, v) \<Rightarrow>
          (case readDelta st a of
             None \<Rightarrow> 0
           | Some d \<Rightarrow> if length (dlines d) \<le> 20000 then 0 else 2, 0::nat)
      | Inr (st, doc, a, m, ls, r, c, f, t) \<Rightarrow>
          (if f = t \<and> m \<le> 20000 then 1 else (3::nat),
           nat (max (int (length ls) - m + 1 - t) (int (length ls) - m + 1 - f))))",
    goal_cases)
  case 1
  show ?case by (intro wf_inv_image wf_lex_prod wf_less_than)
next
  case 2
  then show ?case by simp
next
  case (3 st doc a m ls r c f t x2 s y e ya act z)
  let ?st3 = "st @ [PointObj (pos (r + f) c), PointObj (pos (r + (t + (m - 1))) 0),
                    DeltaObj (length st) (Suc (length st)) act (slice ls f (t + (m - 1)) @ [[]])]"
  have rd: "readDelta ?st3 (Suc (Suc (length st)))
        = Some \<lparr>dstart = pos (r + f) c, dend = pos (r + (t + (m - 1))) 0, daction = act,
                 dlines = slice ls f (t + (m - 1)) @ [[]]\<rparr>"
    by (simp add: readDelta_def deltaAt_def pointAt_def nth_append)
  have "f \<le> t + (m - 1) \<Longrightarrow> length (slice ls f (t + (m - 1))) \<le> nat (t + (m - 1) - f)"
    by (auto simp: slice_def Let_def)
  with 3 show ?case by (auto simp: rd)
next
  case 4
  then show ?case by auto
next
  case (5 st doc a m ls r c f t x2 s y e ya act z p)
  let ?st2 = "(st[a := DeltaObj s e act (sliceFrom ls f)])[s := PointObj (p\<lparr>row := r + f, column := c\<rparr>)]"
  have sa: "s \<noteq> a" "a < length st"
    using 5 by (auto simp: pointAt_def deltaAt_def split: if_splits obj.splits)
  have "\<And>d. readDelta ?st2 a = Some d \<Longrightarrow> dlines d = sliceFrom ls f"
    using sa by (auto simp: readDelta_def deltaAt_def split: option.splits)
  moreover have "length (sliceFrom ls f) \<le> nat (m - 1)"
    using 5 by (auto simp: sliceFrom_def slice_def Let_def)
  ultimately show ?case using 5 by (auto split: option.splits)
qed


declare applyDeltaS.simps [simp del] splitLoopS.simps [simp del]

text \<open>\<open>$safeApplyDelta\<close> and \<open>revertDelta\<close> on the delta at address \<open>a\<close>.\<close>

definition safeApplyDeltaS :: "store \<Rightarrow> document \<Rightarrow> nat \<Rightarrow> sresult" where
  "safeApplyDeltaS st doc a =
     (case readDelta st a of
        None \<Rightarrow> Inl (TypeError, doc, st)
      | Some d \<Rightarrow>
          (let docLength = int (length (lines doc))
           in if daction d = Remove \<and> row (dstart d) < docLength \<and> row (dend d) < docLength
                 \<or> daction d = Insert \<and> row (dstart d) \<le> docLength
              then applyDeltaS st doc a False
              else Inr (doc, st)))"

definition revertDeltaS :: "store \<Rightarrow> document \<Rightarrow> nat \<Rightarrow> sresult" where
  "revertDeltaS st doc a =
     (case readDelta st a of
        None \<Rightarrow> Inl (TypeError, doc, st)
      | Some d \<Rightarrow>
          safeApplyDeltaS
            (st @ [PointObj (clonePos (dstart d)), PointObj (clonePos (dend d)),
                   DeltaObj (length st) (length st + 1)
                     (if daction d = Insert then Remove else Insert) (sliceFrom (dlines d) 0)])
            doc (length st + 2))"

definition storeOf :: "sresult \<Rightarrow> store" where
  "storeOf r = (case r of Inl (_, _, st) \<Rightarrow> st | Inr (_, st) \<Rightarrow> st)"

text \<open>
  \<open>writes st a\<close> are the addresses that applying the delta at \<open>a\<close> may assign to: the delta
  and its start point. \<open>frame W st st'\<close>: the store \<open>st'\<close> has every object of \<open>st\<close>, and
  outside \<open>W\<close> each is as it was.
\<close>

definition writes :: "store \<Rightarrow> nat \<Rightarrow> nat set" where
  "writes st a = (case deltaAt st a of None \<Rightarrow> {} | Some (s, _, _, _) \<Rightarrow> {a, s})"

definition frame :: "nat set \<Rightarrow> store \<Rightarrow> store \<Rightarrow> bool" where
  "frame W st st' \<longleftrightarrow> length st \<le> length st' \<and> (\<forall>i<length st. i \<notin> W \<longrightarrow> st' ! i = st ! i)"

text \<open>
  The two transcriptions side by side: \<open>sim rv rs a\<close> says that the run on values \<open>rv\<close> and
  the run on the store \<open>rs\<close> end the same way with the same document, and that the delta
  the first returns is what the second leaves at address \<open>a\<close>. They can only agree when the
  start and the end of the delta are two objects.
\<close>

definition aliasFree :: "store \<Rightarrow> nat \<Rightarrow> bool" where
  "aliasFree st a = (case deltaAt st a of None \<Rightarrow> True | Some (s, e, _, _) \<Rightarrow> s \<noteq> e)"

definition sim :: "delta result \<Rightarrow> sresult \<Rightarrow> nat \<Rightarrow> bool" where
  "sim rv rs a =
     (case rv of
        Inl (err, doc') \<Rightarrow>
          (case rs of Inl (err2, doc2, _) \<Rightarrow> err2 = err \<and> doc2 = doc' | Inr _ \<Rightarrow> False)
      | Inr (d', doc') \<Rightarrow>
          (case rs of Inl _ \<Rightarrow> False
           | Inr (doc2, st') \<Rightarrow> doc2 = doc' \<and> readDelta st' a = Some d'))"

section \<open>Properties\<close>

subsection \<open>The splice primitive and the unchunked path\<close>

lemma applyDelta_noop: "isNoop d \<Longrightarrow> applyDelta doc d v = Inr (d, doc)"
  by (simp add: applyDelta.simps)

lemma applyDelta_direct:
  "\<not> isNoop d \<Longrightarrow> daction d = Remove \<or> length (dlines d) \<le> 20000 \<Longrightarrow>
   applyDelta doc d True = Inr (d, signal (Change d) (doc\<lparr>lines := spliceLines (lines doc) d\<rparr>))"
  by (auto simp: applyDelta.simps applyDeltaPrim_def)

lemma applyDelta_validated:
  "\<not> isNoop d \<Longrightarrow> daction d = Remove \<or> length (dlines d) \<le> 20000 \<Longrightarrow> validDelta (lines doc) d \<Longrightarrow>
   applyDelta doc d v = Inr (d, signal (Change d) (doc\<lparr>lines := spliceLines (lines doc) d\<rparr>))"
  by (auto simp: applyDelta.simps applyDeltaPrim_def)

lemma mergeEnds_Cons:
  "mergeEnds b (x # xs) a = (if xs = [] then [b @ x @ a] else (b @ x) # butlast xs @ [last xs @ a])"
  by (cases xs) (simp_all add: mergeEnds_def)

lemma mergeEnds_append:
  "A \<noteq> [] \<Longrightarrow> B \<noteq> [] \<Longrightarrow>
   mergeEnds b (A @ B) a = ((b @ hd A) # tl A) @ mergeEnds [] B a"
  by (cases A; cases B) (auto simp: mergeEnds_Cons butlast_append)

lemma mergeEnds_synthetic:
  "A \<noteq> [] \<Longrightarrow> mergeEnds b (A @ [[]]) a = ((b @ hd A) # tl A) @ [a]"
  by (cases A) (auto simp: mergeEnds_Cons butlast_append)

lemma length_mergeEnds: "ls \<noteq> [] \<Longrightarrow> length (mergeEnds b ls a) = length ls"
  by (cases ls) (auto simp: mergeEnds_Cons)

lemma spliceLines_Insert:
  "daction d = Insert \<Longrightarrow>
   spliceLines xs d =
     take (nat (row (dstart d))) xs
       @ mergeEnds (take (nat (column (dstart d))) (lineAt xs (row (dstart d)))) (dlines d)
           (drop (nat (column (dstart d))) (lineAt xs (row (dstart d))))
       @ drop (Suc (nat (row (dstart d)))) xs"
  by (simp add: spliceLines_def Let_def)

lemma lineAt_mid: "lineAt (P @ a # S) (int (length P)) = a"
  by (simp add: lineAt_def)

lemma take_mid: "take (nat (int (length P))) (P @ Q) = P"
  by simp

lemma drop_mid: "drop (Suc (nat (int (length P)))) (P @ a # S) = S"
  by simp

text \<open>
  Inserting \<open>A @ [""]\<close> at \<open>(R, c)\<close> and then \<open>B\<close> at \<open>(R + |A|, 0)\<close> is inserting
  \<open>A @ B\<close> at \<open>(R, c)\<close>.
\<close>

lemma splice_compose:
  assumes R: "0 \<le> R" "R \<le> int (length xs)" and A: "A \<noteq> []" and B: "B \<noteq> []"
    and d1: "daction d1 = Insert" "dstart d1 = \<lparr>row = R, column = c\<rparr>" "dlines d1 = A @ [[]]"
    and d2: "daction d2 = Insert" "dstart d2 = \<lparr>row = R + int (length A), column = 0\<rparr>" "dlines d2 = B"
    and d: "daction d = Insert" "dstart d = \<lparr>row = R, column = c\<rparr>" "dlines d = A @ B"
  shows "spliceLines (spliceLines xs d1) d2 = spliceLines xs d"
proof -
  let ?b = "take (nat c) (lineAt xs R)" and ?a = "drop (nat c) (lineAt xs R)"
  let ?M = "(?b @ hd A) # tl A"
  let ?P = "take (nat R) xs"
  have lenM: "length ?M = length A" using A by (cases A) simp_all
  have lenP: "length ?P = nat R" using R by simp
  have ys: "spliceLines xs d1 = (?P @ ?M) @ ?a # drop (Suc (nat R)) xs"
    using d1 by (simp add: spliceLines_Insert mergeEnds_synthetic[OF A])
  have idx: "R + int (length A) = int (length (?P @ ?M))"
    using lenM lenP R by simp
  have line2: "lineAt (spliceLines xs d1) (R + int (length A)) = ?a"
    unfolding ys idx by (rule lineAt_mid)
  have tk: "take (nat (R + int (length A))) (spliceLines xs d1) = ?P @ ?M"
    unfolding ys idx by (rule take_mid)
  have dr: "drop (Suc (nat (R + int (length A)))) (spliceLines xs d1) = drop (Suc (nat R)) xs"
    unfolding ys idx by (rule drop_mid)
  have "spliceLines (spliceLines xs d1) d2 = ?P @ ?M @ mergeEnds [] B ?a @ drop (Suc (nat R)) xs"
    using d2 by (simp add: spliceLines_Insert line2 tk dr)
  also have "\<dots> = spliceLines xs d"
    using d by (simp add: spliceLines_Insert mergeEnds_append[OF A B])
  finally show ?thesis .
qed

lemma splice_noop_insert:
  assumes "0 \<le> row (dstart d)" "row (dstart d) < int (length xs)" "daction d = Insert" "dlines d = [[]]"
  shows "spliceLines xs d = xs"
  using assms by (simp add: spliceLines_Insert mergeEnds_def lineAt_def id_take_nth_drop[symmetric])

lemma length_spliceLines_chunk:
  assumes "0 \<le> R" "R \<le> int (length xs)" "A \<noteq> []" 
     "daction d1 = Insert" "dstart d1 = \<lparr>row = R, column = c\<rparr>" "dlines d1 = A @ [[]]"
  shows "int (length (spliceLines xs d1)) > R + int (length A)"
  using assms by (auto simp: spliceLines_Insert length_mergeEnds)

subsection \<open>The chunking loop\<close>

lemma slice_take_drop:
  "0 \<le> a \<Longrightarrow> a \<le> b \<Longrightarrow> slice xs a b = take (nat (b - a)) (drop (nat a) xs)"
  by (auto simp: slice_def Let_def min_def)

lemma sliceFrom_drop: "0 \<le> a \<Longrightarrow> sliceFrom xs a = drop (nat a) xs"
  by (auto simp: sliceFrom_def slice_def Let_def min_def)

lemma tailStart_exit: "2 \<le> m \<Longrightarrow> f < L \<Longrightarrow> \<not> f < L - m + 1 \<Longrightarrow> tailStart L m f = f"
  by (simp add: tailStart_def)

lemma tailStart_step:
  assumes "2 \<le> m" "f < L - m + 1"
  shows "tailStart L m f = tailStart L m (f + (m - 1))"
proof -
  have "(L - f - 1) div (m - 1) = (L - (f + (m - 1)) - 1) div (m - 1) + 1"
    using assms div_add_self2[of "m - 1" "L - (f + (m - 1)) - 1"] by (simp add: algebra_simps)
  then show ?thesis by (simp add: tailStart_def algebra_simps)
qed

lemma tailStart_ge: "2 \<le> m \<Longrightarrow> f < L \<Longrightarrow> f \<le> tailStart L m f"
  by (simp add: tailStart_def pos_imp_zdiv_nonneg_iff)

lemma tailStart_bounds: "2 \<le> m \<Longrightarrow> f < L \<Longrightarrow> tailStart L m f < L \<and> L - tailStart L m f \<le> m - 1"
proof -
  assume a: "2 \<le> m" "f < L"
  let ?q = "m - 1" and ?x = "L - f - 1"
  have "?x div ?q * ?q + ?x mod ?q = ?x" by (rule div_mult_mod_eq)
  moreover have "0 \<le> ?x mod ?q" "?x mod ?q < ?q" using a by simp_all
  ultimately show ?thesis unfolding tailStart_def by linarith
qed

lemma point_update_eq: "(p::point)\<lparr>row := a, column := b\<rparr> = \<lparr>row = a, column = b\<rparr>"
  by simp

lemma splitLoop_aligned:
  fixes m :: int
  assumes m: "2 \<le> m" "m \<le> 20000" and ins: "daction d = Insert"
  shows "0 \<le> f \<Longrightarrow> f < int (length ls) \<Longrightarrow>
    \<exists>doc' cs. 
       splitLoop doc d m ls r c f f
         = Inr (d\<lparr>dlines := drop (nat (tailStart (int (length ls)) m f)) ls,
                 dstart := \<lparr>row = r + tailStart (int (length ls)) m f,
                            column = (if tailStart (int (length ls)) m f = f then c else 0)\<rparr>\<rparr>, doc')
       \<and> emitted doc' = emitted doc @ map Change cs
             @ (if isNoop (d\<lparr>dlines := drop (nat (tailStart (int (length ls)) m f)) ls\<rparr>) then []
                else [Change (d\<lparr>dlines := drop (nat (tailStart (int (length ls)) m f)) ls,
                 dstart := \<lparr>row = r + tailStart (int (length ls)) m f,
                            column = (if tailStart (int (length ls)) m f = f then c else 0)\<rparr>\<rparr>)])
       \<and> concat (map (\<lambda>x. butlast (dlines x)) cs)
             = take (nat (tailStart (int (length ls)) m f - f)) (drop (nat f) ls)
       \<and> (\<forall>x\<in>set cs. daction x = Insert \<and> int (length (dlines x)) = m \<and> last (dlines x) = [])
       \<and> autoNewLine doc' = autoNewLine doc \<and> newLineMode doc' = newLineMode doc
       \<and> (0 \<le> r + f \<and> (r + f < int (length (lines doc))
                         \<or> r + f = int (length (lines doc)) \<and> f < int (length ls) - m + 1) \<longrightarrow>
            lines doc' = spliceLines (lines doc) (d\<lparr>dlines := drop (nat f) ls, dstart := \<lparr>row = r + f, column = c\<rparr>\<rparr>))"
proof (induction "nat (int (length ls) - f)" arbitrary: f doc c rule: less_induct)
  case less
  let ?L = "int (length ls)"
  let ?n = "tailStart ?L m f"
  show ?case
  proof (cases "f < ?L - m + 1")
    case False
    have n: "?n = f" using m less.prems False by (simp add: tailStart_exit)
    let ?dt = "d\<lparr>dlines := drop (nat f) ls, dstart := \<lparr>row = r + f, column = c\<rparr>\<rparr>"
    have loop: "splitLoop doc d m ls r c f f = applyDelta doc ?dt True"
      using False less.prems by (subst splitLoop.simps) (simp add: sliceFrom_drop point_update_eq)
    have ne: "drop (nat f) ls \<noteq> []" using less.prems by simp
    have noop_eq: "isNoop (d\<lparr>dlines := drop (nat f) ls\<rparr>) = isNoop ?dt"
      using ins by (simp add: isNoop_def)
    show ?thesis
    proof (cases "isNoop ?dt")
      case True
      then have "length (drop (nat f) ls) \<le> 1"
        and "case drop (nat f) ls of [] \<Rightarrow> True | l # _ \<Rightarrow> l = []"
        using ins by (simp_all add: isNoop_def)
      then have one: "drop (nat f) ls = [[]]"
        using ne by (cases "drop (nat f) ls") auto
      have "splitLoop doc d m ls r c f f = Inr (?dt, doc)"
        using loop True by (simp add: applyDelta_noop)
      moreover have "0 \<le> r + f \<and> r + f < int (length (lines doc)) \<longrightarrow>
            spliceLines (lines doc) (d\<lparr>dlines := drop (nat f) ls, dstart := \<lparr>row = r + f, column = c\<rparr>\<rparr>) = lines doc"
        using ins one by (auto intro!: splice_noop_insert)
      ultimately show ?thesis
        unfolding n using True noop_eq False
        by (intro exI[of _ doc] exI[of _ "[]"]) simp
    next
      case nn: False
      have len: "length (dlines ?dt) \<le> 20000" using m False less.prems by simp
      have "splitLoop doc d m ls r c f f
            = Inr (?dt, signal (Change ?dt) (doc\<lparr>lines := spliceLines (lines doc) ?dt\<rparr>))"
        using loop applyDelta_direct[OF nn disjI2[OF len]] by simp
      then show ?thesis
        unfolding n using nn noop_eq
        by (intro exI[of _ "signal (Change ?dt) (doc\<lparr>lines := spliceLines (lines doc) ?dt\<rparr>)"] exI[of _ "[]"])
           (simp add: signal_def)
    qed
  next
    case True
    let ?q = "m - 1"
    let ?f' = "f + ?q"
    let ?A = "take (nat ?q) (drop (nat f) ls)"
    let ?dc = "\<lparr>dstart = pos (r + f) c, dend = pos (r + (f + ?q)) 0, daction = daction d,
               dlines = ?A @ [[]]\<rparr>"
    let ?doc1 = "signal (Change ?dc) (doc\<lparr>lines := spliceLines (lines doc) ?dc\<rparr>)"
    have sl: "slice ls f (f + ?q) = ?A"
      using less.prems m by (simp add: slice_take_drop)
    have lenA: "int (length ?A) = ?q" using True less.prems m by simp
    have Ane: "?A \<noteq> []" using lenA m by auto
    have nn: "\<not> isNoop ?dc" using ins lenA m by (auto simp: isNoop_def)
    have len: "length (dlines ?dc) \<le> 20000" using lenA m by simp
    have chunk: "applyDelta doc ?dc True = Inr (?dc, ?doc1)"
      using applyDelta_direct[OF nn disjI2[OF len]] .
    have loop: "splitLoop doc d m ls r c f f = splitLoop ?doc1 d m ls r 0 ?f' ?f'"
      using True m by (subst splitLoop.simps) (simp add: sl chunk)
    have f': "0 \<le> ?f'" "?f' < ?L" using True less.prems m by simp_all
    have meas: "nat (?L - ?f') < nat (?L - f)" using True m by simp
    have n: "tailStart ?L m ?f' = ?n" using tailStart_step[OF m(1) True] by simp
    have nge: "?f' \<le> ?n" using tailStart_ge[OF m(1) f'(2)] n by simp
    then have nf: "?n \<noteq> f" "?n \<noteq> ?f'  \<or> True" using m by simp_all
    note ih = less.hyps[OF meas f', of ?doc1 0, unfolded n if_cancel]
    from ih obtain doc' cs where
      r1: "splitLoop ?doc1 d m ls r 0 ?f' ?f'
         = Inr (d\<lparr>dlines := drop (nat ?n) ls, dstart := \<lparr>row = r + ?n, column = 0\<rparr>\<rparr>, doc')"
      and r2: "emitted doc' = emitted ?doc1 @ map Change cs
             @ (if isNoop (d\<lparr>dlines := drop (nat ?n) ls\<rparr>) then []
                else [Change (d\<lparr>dlines := drop (nat ?n) ls, dstart := \<lparr>row = r + ?n, column = 0\<rparr>\<rparr>)])"
      and r3: "concat (map (\<lambda>x. butlast (dlines x)) cs) = take (nat (?n - ?f')) (drop (nat ?f') ls)"
      and r4: "\<forall>x\<in>set cs. daction x = Insert \<and> int (length (dlines x)) = m \<and> last (dlines x) = []"
      and r5: "autoNewLine doc' = autoNewLine ?doc1" "newLineMode doc' = newLineMode ?doc1"
      and r6: "0 \<le> r + ?f' \<and> (r + ?f' < int (length (lines ?doc1))
                         \<or> r + ?f' = int (length (lines ?doc1)) \<and> ?f' < ?L - m + 1) \<longrightarrow>
            lines doc' = spliceLines (lines ?doc1) (d\<lparr>dlines := drop (nat ?f') ls, dstart := \<lparr>row = r + ?f', column = 0\<rparr>\<rparr>)"
      by blast
    have c1: "splitLoop doc d m ls r c f f
         = Inr (d\<lparr>dlines := drop (nat ?n) ls,
                 dstart := \<lparr>row = r + ?n, column = (if ?n = f then c else 0)\<rparr>\<rparr>, doc')"
      using loop r1 nf by simp
    have c2: "emitted doc' = emitted doc @ map Change (?dc # cs)
             @ (if isNoop (d\<lparr>dlines := drop (nat ?n) ls\<rparr>) then []
                else [Change (d\<lparr>dlines := drop (nat ?n) ls,
                 dstart := \<lparr>row = r + ?n, column = (if ?n = f then c else 0)\<rparr>\<rparr>)])"
      using r2 nf by (simp add: signal_def)
    have tk: "take (nat (?n - f)) (drop (nat f) ls) = ?A @ take (nat (?n - ?f')) (drop (nat ?f') ls)"
    proof -
      have "nat (?n - f) = nat ?q + nat (?n - ?f')" using nge m by simp
      moreover have "nat ?f' = nat ?q + nat f" using less.prems m by simp
      ultimately show ?thesis by (simp add: take_add drop_drop[symmetric] del: drop_drop)
    qed
    have c3: "concat (map (\<lambda>x. butlast (dlines x)) (?dc # cs)) = take (nat (?n - f)) (drop (nat f) ls)"
      using r3 tk by simp
    have c4: "\<forall>x\<in>set (?dc # cs). daction x = Insert \<and> int (length (dlines x)) = m \<and> last (dlines x) = []"
      using r4 ins lenA by simp
    have c5: "autoNewLine doc' = autoNewLine doc" "newLineMode doc' = newLineMode doc"
      using r5 by (simp_all add: signal_def)
    have c6: "0 \<le> r + f \<and> (r + f < int (length (lines doc))
                         \<or> r + f = int (length (lines doc)) \<and> f < ?L - m + 1) \<longrightarrow>
            lines doc' = spliceLines (lines doc) (d\<lparr>dlines := drop (nat f) ls, dstart := \<lparr>row = r + f, column = c\<rparr>\<rparr>)"
    proof
      assume b: "0 \<le> r + f \<and> (r + f < int (length (lines doc))
                         \<or> r + f = int (length (lines doc)) \<and> f < ?L - m + 1)"
      then have R: "0 \<le> r + f" "r + f \<le> int (length (lines doc))" by auto
      let ?B = "drop (nat ?f') ls"
      have Bne: "?B \<noteq> []" using f' by simp
      have AB: "?A @ ?B = drop (nat f) ls"
      proof -
        have "nat ?f' = nat ?q + nat f" using less.prems m by simp
        then show ?thesis by (simp add: drop_drop[symmetric] del: drop_drop)
      qed
      have l1: "lines ?doc1 = spliceLines (lines doc) ?dc" by (simp add: signal_def)
      have "r + f + int (length ?A) < int (length (spliceLines (lines doc) ?dc))"
        using ins by (intro length_spliceLines_chunk[OF R Ane, where c=c]) (simp_all add: pos_def)
      then have "r + ?f' < int (length (lines ?doc1))" using lenA l1 by simp
      moreover have "0 \<le> r + ?f'" using R m by simp
      ultimately have "lines doc' = spliceLines (lines ?doc1)
             (d\<lparr>dlines := ?B, dstart := \<lparr>row = r + ?f', column = 0\<rparr>\<rparr>)"
        using r6 by blast
      also have "\<dots> = spliceLines (lines doc) (d\<lparr>dlines := drop (nat f) ls, dstart := \<lparr>row = r + f, column = c\<rparr>\<rparr>)"
        unfolding l1 using ins lenA
        by (intro splice_compose[OF R Ane Bne, where c=c]) (simp_all add: pos_def AB)
      finally show "lines doc' = spliceLines (lines doc) (d\<lparr>dlines := drop (nat f) ls, dstart := \<lparr>row = r + f, column = c\<rparr>\<rparr>)" .
    qed
    from c1 c2 c3 c4 c5 c6 show ?thesis by blast
  qed
qed

lemma applyDelta_large:
  "daction d = Insert \<Longrightarrow> length (dlines d) > 20000 \<Longrightarrow>
   applyDelta doc d v = splitLoop doc d 20000 (dlines d) (row (dstart d)) (column (dstart d)) 0 0"
  by (subst applyDelta.simps) (auto simp: isNoop_def)

lemma tailStart_top:
  assumes "20000 < L"
  shows "nat (tailStart (int L) 20000 0) = (L - 1) div 19999 * 19999"
proof -
  have "int ((L - 1) div 19999 * 19999) = (int L - 1) div 19999 * 19999"
    using assms by (simp add: zdiv_int of_nat_diff)
  then show ?thesis by (simp add: tailStart_def)
qed

lemma applyDelta_large_delta:
  assumes "daction d = Insert" and "length (dlines d) > 20000"
  shows "\<exists>doc'. applyDelta doc d v
           = Inr (d\<lparr>dlines := drop ((length (dlines d) - 1) div 19999 * 19999) (dlines d),
                   dstart := \<lparr>row = row (dstart d) + int ((length (dlines d) - 1) div 19999 * 19999),
                              column = 0\<rparr>\<rparr>, doc')
         \<and> 0 < (length (dlines d) - 1) div 19999 * 19999
         \<and> drop ((length (dlines d) - 1) div 19999 * 19999) (dlines d) \<noteq> []
         \<and> length (drop ((length (dlines d) - 1) div 19999 * 19999) (dlines d)) < 20000"
proof -
  let ?L = "length (dlines d)"
  let ?n = "tailStart (int ?L) 20000 0"
  have n: "nat ?n = (?L - 1) div 19999 * 19999" using assms(2) by (rule tailStart_top)
  have m1: "(2::int) \<le> 20000" by simp
  have fl: "0 < int ?L" using assms(2) by linarith
  have fl1: "0 < int ?L - 20000 + 1" using assms(2) by linarith
  have fl2: "0 + (20000 - 1) < int ?L" using assms(2) by linarith
  have b: "?n < int ?L \<and> int ?L - ?n \<le> 20000 - 1"
    by (rule tailStart_bounds[OF m1 fl])
  have step: "?n = tailStart (int ?L) 20000 (0 + (20000 - 1))"
    by (rule tailStart_step[OF m1 fl1])
  have "0 + (20000 - 1) \<le> tailStart (int ?L) 20000 (0 + (20000 - 1))"
    by (rule tailStart_ge[OF m1 fl2])
  with step have pos: "0 < ?n" by simp
  define k where "k = (?L - 1) div 19999 * 19999"
  have nk: "?n = int k" using n pos unfolding k_def by linarith
  note main = splitLoop_aligned[where m=20000 and f=0, OF _ _ assms(1) _ fl,
      of doc "row (dstart d)" "column (dstart d)"]
  from main pos
  obtain doc' where
    "splitLoop doc d 20000 (dlines d) (row (dstart d)) (column (dstart d)) 0 0
       = Inr (d\<lparr>dlines := drop (nat ?n) (dlines d),
               dstart := \<lparr>row = row (dstart d) + ?n, column = 0\<rparr>\<rparr>, doc')"
    by auto
  then have "applyDelta doc d v
       = Inr (d\<lparr>dlines := drop k (dlines d),
               dstart := \<lparr>row = row (dstart d) + int k, column = 0\<rparr>\<rparr>, doc')"
    using assms by (simp add: applyDelta_large nk)
  moreover have "0 < k" using pos nk by linarith
  moreover have "k < ?L" using b nk by linarith
  moreover have "?L - k < 20000" using b nk by linarith
  ultimately show ?thesis unfolding k_def[symmetric] by auto
qed


lemma applyDelta_large_lines:
  assumes "daction d = Insert" and "length (dlines d) > 20000"
  shows "\<exists>d' doc'. applyDelta doc d v = Inr (d', doc')
           \<and> autoNewLine doc' = autoNewLine doc \<and> newLineMode doc' = newLineMode doc
           \<and> (0 \<le> row (dstart d) \<and> row (dstart d) \<le> int (length (lines doc))
                \<longrightarrow> lines doc' = spliceLines (lines doc) d)"
proof -
  let ?L = "length (dlines d)"
  have self: "d\<lparr>dlines := dlines d, dstart := \<lparr>row = row (dstart d), column = column (dstart d)\<rparr>\<rparr> = d"
    by simp
  let ?n = "tailStart (int ?L) 20000 0"
  let ?d' = "d\<lparr>dlines := drop (nat ?n) (dlines d),
               dstart := \<lparr>row = row (dstart d) + ?n,
                          column = (if ?n = 0 then column (dstart d) else 0)\<rparr>\<rparr>"
  have self2: "d\<lparr>dstart := \<lparr>row = row (dstart d), column = column (dstart d)\<rparr>\<rparr> = d"
    by simp
  have fl: "0 < int ?L" using assms(2) by linarith
  have fl1: "0 < int ?L - 20000 + 1" using assms(2) by linarith
  have m: "(2::int) \<le> 20000" "(20000::int) \<le> 20000" "(0::int) \<le> 0" by simp_all
  note main = splitLoop_aligned[OF m(1,2) assms(1) m(3) fl,
      of doc "row (dstart d)" "column (dstart d)"]
  from main fl1 show ?thesis
    apply -
    apply (elim exE conjE)
    subgoal for doc' cs
      apply (rule exI[of _ ?d'], rule exI[of _ doc'])
      apply (auto simp add: applyDelta_large assms self self2)
      done
    done
qed

lemma applyDelta_newline:
  "applyDelta doc d v = Inr (d', doc') \<Longrightarrow>
   autoNewLine doc' = autoNewLine doc \<and> newLineMode doc' = newLineMode doc"
proof (cases "isNoop d")
  case True
  assume "applyDelta doc d v = Inr (d', doc')"
  with True show ?thesis by (simp add: applyDelta_noop)
next
  case False
  assume r: "applyDelta doc d v = Inr (d', doc')"
  show ?thesis
  proof (cases "daction d = Insert \<and> length (dlines d) > 20000")
    case True
    with applyDelta_large_lines[of d doc v] r show ?thesis by auto
  next
    case b: False
    with False r show ?thesis
      by (subst (asm) applyDelta.simps)
         (auto simp: signal_def split: sum.splits if_splits)
  qed
qed


lemma mergeEnds_empty: "ls \<noteq> [] \<Longrightarrow> mergeEnds [] ls [] = ls"
  by (cases ls) (auto simp: mergeEnds_Cons)

lemma getAllLines_eq: "getAllLines doc = lines doc"
  by (simp add: getAllLines_def getLines_def getLength_def slice_def)

lemma join_two_nonempty: "sep \<noteq> [] \<Longrightarrow> join (x # y # ys) sep \<noteq> []"
  by simp

text \<open>
  Claim C9. An insert of more than 20000 lines does not come back from \<open>applyDelta\<close> as
  the caller built it: the call returns, and it leaves in the caller's delta only the lines
  from the start of the last window on, at least one and fewer than 20000, with the start of
  the delta moved to that row and to column 0.
\<close>

theorem applyDelta_large_mutates_delta:
  assumes "daction d = Insert" and "length (dlines d) > 20000"
  shows "\<exists>doc'. applyDelta doc d doNotValidate
           = Inr (d\<lparr>dlines := drop ((length (dlines d) - 1) div 19999 * 19999) (dlines d),
                   dstart := \<lparr>row = row (dstart d) + int ((length (dlines d) - 1) div 19999 * 19999),
                              column = 0\<rparr>\<rparr>, doc')
         \<and> 0 < (length (dlines d) - 1) div 19999 * 19999
         \<and> drop ((length (dlines d) - 1) div 19999 * 19999) (dlines d) \<noteq> []
         \<and> length (drop ((length (dlines d) - 1) div 19999 * 19999) (dlines d)) < 20000"
  using assms by (rule applyDelta_large_delta)

theorem applyDelta_large_mutates_delta_witness:
  "\<exists>doc'. applyDelta emptyDocument
       \<lparr>dstart = \<lparr>row = 0, column = 0\<rparr>, dend = \<lparr>row = 20000, column = 0\<rparr>, daction = Insert,
        dlines = replicate 20001 []\<rparr> False
     = Inr (\<lparr>dstart = \<lparr>row = 19999, column = 0\<rparr>, dend = \<lparr>row = 20000, column = 0\<rparr>, daction = Insert,
             dlines = replicate 2 []\<rparr>, doc')"
  using applyDelta_large_mutates_delta[of "\<lparr>dstart = \<lparr>row = 0, column = 0\<rparr>, dend = \<lparr>row = 20000, column = 0\<rparr>, daction = Insert,
        dlines = replicate 20001 []\<rparr>" emptyDocument False]
  by simp

text \<open>
  Claim C2. An insert of more than 20000 lines whose start row is a row of the document (or
  the row after its last) goes through the chunking loop and leaves the lines that the
  splice primitive gives for the whole delta in one call. The notifications it emits are
  the windows, each of 20000 lines ending in the synthetic empty line, and then the tail
  the caller's delta is left with (no notification when that tail is the single empty
  line); the windows without their synthetic last lines, followed by the tail, are the
  lines of the delta.
\<close>

theorem chunked_insert_equals_single_splice:
  assumes "daction d = Insert" and "length (dlines d) > 20000"
    and "0 \<le> row (dstart d)" and "row (dstart d) \<le> getLength doc"
  shows "\<exists>d' doc' cs.
           applyDelta doc d doNotValidate = Inr (d', doc')
         \<and> applyDeltaPrim (lines doc) d True = Inr (lines doc')
         \<and> emitted doc' = emitted doc @ map Change cs @ (if isNoop d' then [] else [Change d'])
         \<and> (\<forall>x\<in>set cs. daction x = Insert \<and> length (dlines x) = 20000 \<and> last (dlines x) = [])
         \<and> concat (map (\<lambda>x. butlast (dlines x)) cs) @ dlines d' = dlines d"
proof -
  let ?L = "length (dlines d)"
  let ?n = "tailStart (int ?L) 20000 0"
  let ?d' = "d\<lparr>dlines := drop (nat ?n) (dlines d),
               dstart := \<lparr>row = row (dstart d) + ?n,
                          column = (if ?n = 0 then column (dstart d) else 0)\<rparr>\<rparr>"
  have noop_eq: "isNoop (d\<lparr>dlines := drop (nat ?n) (dlines d)\<rparr>) = isNoop ?d'"
    using assms(1) by (simp add: isNoop_def)
  have self: "d\<lparr>dlines := dlines d, dstart := \<lparr>row = row (dstart d), column = column (dstart d)\<rparr>\<rparr> = d"
    by simp
  have self2: "d\<lparr>dstart := \<lparr>row = row (dstart d), column = column (dstart d)\<rparr>\<rparr> = d"
    by simp
  have fl: "0 < int ?L" using assms(2) by linarith
  have bnd: "0 \<le> row (dstart d) + 0 \<and> (row (dstart d) + 0 < int (length (lines doc))
       \<or> row (dstart d) + 0 = int (length (lines doc)) \<and> 0 < int ?L - 20000 + 1)"
    using assms by (auto simp: getLength_def)
  have m: "(2::int) \<le> 20000" "(20000::int) \<le> 20000" "(0::int) \<le> 0" by simp_all
  note main = splitLoop_aligned[OF m(1,2) assms(1) m(3) fl,
      of doc "row (dstart d)" "column (dstart d)"]
  from main bnd show ?thesis
    apply -
    apply (elim exE conjE)
    subgoal for doc' cs
      apply (rule exI[of _ ?d'], rule exI[of _ doc'], rule exI[of _ cs])
      apply (simp add: applyDelta_large assms self self2 noop_eq applyDeltaPrim_def)
      done
    done
qed

theorem chunked_insert_equals_single_splice_witness:
  "\<exists>d' doc' cs.
      applyDelta emptyDocument
       \<lparr>dstart = \<lparr>row = 0, column = 0\<rparr>, dend = \<lparr>row = 20000, column = 0\<rparr>, daction = Insert,
        dlines = replicate 20001 []\<rparr> False = Inr (d', doc')
    \<and> applyDeltaPrim (lines emptyDocument)
       \<lparr>dstart = \<lparr>row = 0, column = 0\<rparr>, dend = \<lparr>row = 20000, column = 0\<rparr>, daction = Insert,
        dlines = replicate 20001 []\<rparr> True = Inr (lines doc')
    \<and> emitted doc' = emitted emptyDocument @ map Change cs @ (if isNoop d' then [] else [Change d'])
    \<and> list_all (\<lambda>x. daction x = Insert \<and> length (dlines x) = 20000 \<and> last (dlines x) = []) cs
    \<and> concat (map (\<lambda>x. butlast (dlines x)) cs) @ dlines d' = replicate 20001 []"
  using chunked_insert_equals_single_splice[of "\<lparr>dstart = \<lparr>row = 0, column = 0\<rparr>, dend = \<lparr>row = 20000, column = 0\<rparr>, daction = Insert,
        dlines = replicate 20001 []\<rparr>" emptyDocument False]
  by (simp add: getLength_def emptyDocument_def list_all_iff)

subsection \<open>Applying a delta and reverting it\<close>

lemma nat_int_length_app: "nat (int (length P)) = length P" by simp










lemma applyDelta_insert_result:
  assumes "daction d = Insert" "\<not> isNoop d"
    and "positionInDocument (lines doc) (dstart d)"
    and "comparePoints (dstart d) (dend d) \<le> 0"
    and "int (length (dlines d)) - 1 = row (dend d) - row (dstart d)"
  shows "\<exists>d' doc'. applyDelta doc d False = Inr (d', doc')
           \<and> lines doc' = spliceLines (lines doc) d
           \<and> autoNewLine doc' = autoNewLine doc \<and> newLineMode doc' = newLineMode doc"
proof (cases "length (dlines d) > 20000")
  case True
  have "0 \<le> row (dstart d) \<and> row (dstart d) \<le> int (length (lines doc))"
    using assms(3) by (simp add: positionInDocument_def)
  with applyDelta_large_lines[OF assms(1) True, of doc False] show ?thesis by blast
next
  case False
  have v: "validDelta (lines doc) d" using assms by (simp add: validDelta_def)
  have "applyDelta doc d False = Inr (d, signal (Change d) (doc\<lparr>lines := spliceLines (lines doc) d\<rparr>))"
    using False by (intro applyDelta_validated[OF assms(2) _ v]) simp
  then show ?thesis by (simp add: signal_def)
qed

lemma applyDelta_remove_result:
  assumes "daction d = Remove" "\<not> isNoop d" "validDelta (lines doc) d"
  shows "applyDelta doc d v = Inr (d, signal (Change d) (doc\<lparr>lines := spliceLines (lines doc) d\<rparr>))"
  using assms by (intro applyDelta_validated) simp_all















subsection \<open>Guards, stale deltas and index conversion\<close>

lemma comparePoints_zero_iff: "comparePoints p q = 0 \<longleftrightarrow> row p = row q \<and> column p = column q"
  by (auto simp: comparePoints_def)

text \<open>
  Claim C7. An insert whose lines are exactly one empty string, and a remove whose start
  equals its end under the row-then-column comparator, leave the document as it is: the
  lines are not touched and nothing is emitted, and the delta is left as it was.
\<close>

theorem applyDelta_noop_guard:
  "daction d = Insert \<and> dlines d = [[]] \<or> daction d = Remove \<and> comparePoints (dstart d) (dend d) = 0
   \<Longrightarrow> applyDelta doc d doNotValidate = Inr (d, doc)"
  by (auto simp: applyDelta.simps isNoop_def)

theorem applyDelta_noop_guard_witness:
  "applyDelta emptyDocument
     \<lparr>dstart = \<lparr>row = 0, column = 0\<rparr>, dend = \<lparr>row = 0, column = 0\<rparr>, daction = Insert, dlines = [[]]\<rparr> False
   = Inr (\<lparr>dstart = \<lparr>row = 0, column = 0\<rparr>, dend = \<lparr>row = 0, column = 0\<rparr>, daction = Insert, dlines = [[]]\<rparr>,
          emptyDocument)
   \<and> applyDelta emptyDocument
     \<lparr>dstart = \<lparr>row = 0, column = 0\<rparr>, dend = \<lparr>row = 0, column = 0\<rparr>, daction = Remove, dlines = [[]]\<rparr> False
   = Inr (\<lparr>dstart = \<lparr>row = 0, column = 0\<rparr>, dend = \<lparr>row = 0, column = 0\<rparr>, daction = Remove, dlines = [[]]\<rparr>,
          emptyDocument)"
  using applyDelta_noop_guard[of "\<lparr>dstart = \<lparr>row = 0, column = 0\<rparr>, dend = \<lparr>row = 0, column = 0\<rparr>, daction = Insert, dlines = [[]]\<rparr>" emptyDocument False]
    applyDelta_noop_guard[of "\<lparr>dstart = \<lparr>row = 0, column = 0\<rparr>, dend = \<lparr>row = 0, column = 0\<rparr>, daction = Remove, dlines = [[]]\<rparr>" emptyDocument False]
  by (simp add: comparePoints_def)

text \<open>
  Claim C8. \<open>$safeApplyDelta\<close> returns the document and the delta unchanged, without an
  exception and without a notification, for a remove one of whose rows is not below the line
  count and for an insert whose start row is above it; otherwise it is \<open>applyDelta\<close> with
  validation. \<open>revertDelta\<close>, which hands it the inverse delta, leaves the document
  unchanged when that inverse is stale.
\<close>

theorem safeApplyDelta_stale:
  "(daction d = Remove \<and> (row (dstart d) \<ge> getLength doc \<or> row (dend d) \<ge> getLength doc)
      \<or> daction d = Insert \<and> row (dstart d) > getLength doc
    \<longrightarrow> safeApplyDelta doc d = Inr (d, doc))
   \<and> (daction d = Remove \<and> row (dstart d) < getLength doc \<and> row (dend d) < getLength doc
      \<or> daction d = Insert \<and> row (dstart d) \<le> getLength doc
    \<longrightarrow> safeApplyDelta doc d = applyDelta doc d False)
   \<and> (daction d = Insert \<and> (row (dstart d) \<ge> getLength doc \<or> row (dend d) \<ge> getLength doc)
      \<or> daction d = Remove \<and> row (dstart d) > getLength doc
    \<longrightarrow> revertDelta doc d = Inr ((), doc))"
  by (cases "daction d") (auto simp: safeApplyDelta_def revertDelta_def getLength_def Let_def clonePos_def)

theorem safeApplyDelta_stale_witness:
  "safeApplyDelta emptyDocument
     \<lparr>dstart = \<lparr>row = 3, column = 0\<rparr>, dend = \<lparr>row = 3, column = 1\<rparr>, daction = Remove, dlines = [''a'']\<rparr>
   = Inr (\<lparr>dstart = \<lparr>row = 3, column = 0\<rparr>, dend = \<lparr>row = 3, column = 1\<rparr>, daction = Remove, dlines = [''a'']\<rparr>,
          emptyDocument)
   \<and> safeApplyDelta emptyDocument
     \<lparr>dstart = \<lparr>row = 0, column = 0\<rparr>, dend = \<lparr>row = 0, column = 1\<rparr>, daction = Insert, dlines = [''a'']\<rparr>
   = applyDelta emptyDocument
     \<lparr>dstart = \<lparr>row = 0, column = 0\<rparr>, dend = \<lparr>row = 0, column = 1\<rparr>, daction = Insert, dlines = [''a'']\<rparr> False
   \<and> revertDelta emptyDocument
     \<lparr>dstart = \<lparr>row = 3, column = 0\<rparr>, dend = \<lparr>row = 3, column = 1\<rparr>, daction = Insert, dlines = [''a'']\<rparr>
   = Inr ((), emptyDocument)"
  using safeApplyDelta_stale[of "\<lparr>dstart = \<lparr>row = 3, column = 0\<rparr>, dend = \<lparr>row = 3, column = 1\<rparr>, daction = Remove, dlines = [''a'']\<rparr>" emptyDocument]
    safeApplyDelta_stale[of "\<lparr>dstart = \<lparr>row = 0, column = 0\<rparr>, dend = \<lparr>row = 0, column = 1\<rparr>, daction = Insert, dlines = [''a'']\<rparr>" emptyDocument]
    safeApplyDelta_stale[of "\<lparr>dstart = \<lparr>row = 3, column = 0\<rparr>, dend = \<lparr>row = 3, column = 1\<rparr>, daction = Insert, dlines = [''a'']\<rparr>" emptyDocument]
  by (simp add: getLength_def emptyDocument_def)

lemma positionToIndexLoop_eq:
  "0 \<le> i \<Longrightarrow> i \<le> r \<Longrightarrow> r \<le> int (length ls) \<Longrightarrow>
   positionToIndexLoop ls nl r index i
     = Inr (index + (\<Sum>k = nat i..<nat r. int (length (ls ! k)) + nl))"
proof (induction "nat (r - i)" arbitrary: i index)
  case 0
  then show ?case by (simp add: positionToIndexLoop.simps)
next
  case (Suc n)
  then have lt: "i < r" by linarith
  have n: "n = nat (r - (i + 1))" using Suc.hyps(2) by linarith
  have split: "(\<Sum>k = nat i..<nat r. int (length (ls ! k)) + nl)
             = (int (length (ls ! nat i)) + nl) + (\<Sum>k = nat (i + 1)..<nat r. int (length (ls ! k)) + nl)"
  proof -
    have "nat i < nat r" using lt Suc.prems by linarith
    moreover have "nat (i + 1) = Suc (nat i)" using Suc.prems by linarith
    ultimately show ?thesis by (simp add: sum.atLeast_Suc_lessThan)
  qed
  have "positionToIndexLoop ls nl r index i
        = positionToIndexLoop ls nl r (index + (int (length (ls ! nat i)) + nl)) (i + 1)"
    using lt Suc.prems by (subst positionToIndexLoop.simps) simp
  also have "\<dots> = Inr (index + (int (length (ls ! nat i)) + nl)
                      + (\<Sum>k = nat (i + 1)..<nat r. int (length (ls ! k)) + nl))"
    using Suc.hyps(1)[OF n] lt Suc.prems by simp
  finally show ?case by (simp add: split add.assoc)
qed

lemma indexToPositionLoop_eq:
  "0 \<le> i \<Longrightarrow> i \<le> r \<Longrightarrow> r < int (length ls) \<Longrightarrow> 0 \<le> c \<Longrightarrow> c \<le> int (length (ls ! nat r)) \<Longrightarrow>
   0 < nl \<Longrightarrow>
   indexToPositionLoop ls nl ((\<Sum>k = nat i..<nat r. int (length (ls ! k)) + nl) + c) i
     = Inr \<lparr>row = r, column = c\<rparr>"
proof (induction "nat (r - i)" arbitrary: i)
  case 0
  then have "i = r" by linarith
  with 0 show ?case by (subst indexToPositionLoop.simps) (simp add: Let_def)
next
  case (Suc n)
  then have lt: "i < r" by linarith
  have n: "n = nat (r - (i + 1))" using Suc.hyps(2) by linarith
  have split: "(\<Sum>k = nat i..<nat r. int (length (ls ! k)) + nl)
             = (int (length (ls ! nat i)) + nl) + (\<Sum>k = nat (i + 1)..<nat r. int (length (ls ! k)) + nl)"
  proof -
    have "nat i < nat r" using lt Suc.prems by linarith
    moreover have "nat (i + 1) = Suc (nat i)" using Suc.prems by linarith
    ultimately show ?thesis by (simp add: sum.atLeast_Suc_lessThan)
  qed
  have nonneg: "0 \<le> (\<Sum>k = nat (i + 1)..<nat r. int (length (ls ! k)) + nl)"
    using Suc.prems by (intro sum_nonneg) simp
  have "indexToPositionLoop ls nl ((\<Sum>k = nat i..<nat r. int (length (ls ! k)) + nl) + c) i
        = indexToPositionLoop ls nl ((\<Sum>k = nat (i + 1)..<nat r. int (length (ls ! k)) + nl) + c) (i + 1)"
    using lt Suc.prems nonneg by (subst indexToPositionLoop.simps) (simp add: Let_def split)
  also have "\<dots> = Inr \<lparr>row = r, column = c\<rparr>"
    using Suc.hyps(1)[OF n] lt Suc.prems by simp
  finally show ?case .
qed

lemma newline_length_pos: "0 < length (getNewLineCharacter doc)"
  by (simp add: getNewLineCharacter_def split: newLineMode.split)

text \<open>
  Claim C5. For a position inside the line store (a row of the document and a column up to
  the length of that row), \<open>positionToIndex\<close> returns an index from which
  \<open>indexToPosition\<close> returns the position, when the second call sees the same lines and
  a newline string of the same length.
\<close>

theorem index_position_inverse:
  assumes "0 \<le> row p" "row p < getLength doc" "0 \<le> column p" "column p \<le> int (length (getLine doc (row p)))"
    and "lines doc' = lines doc"
    and "length (getNewLineCharacter doc') = length (getNewLineCharacter doc)"
  shows "\<exists>index. positionToIndex doc p None = Inr index \<and> indexToPosition doc' index None = Inr p"
proof -
  let ?nl = "int (length (getNewLineCharacter doc))"
  let ?s = "\<Sum>k = nat 0..<nat (row p). int (length (lines doc ! k)) + ?nl"
  have r: "row p \<le> int (length (lines doc))" using assms by (simp add: getLength_def)
  have "positionToIndexLoop (lines doc) ?nl (row p) 0 0 = Inr (0 + ?s)"
    using assms r by (intro positionToIndexLoop_eq) auto
  then have 1: "positionToIndex doc p None = Inr (?s + column p)"
    using r by (simp add: positionToIndex_def min_def)
  have "indexToPositionLoop (lines doc) ?nl (?s + column p) 0 = Inr \<lparr>row = row p, column = column p\<rparr>"
    using assms newline_length_pos[of doc]
    by (intro indexToPositionLoop_eq) (auto simp: getLength_def getLine_def)
  then have 2: "indexToPosition doc' (?s + column p) None = Inr p"
    using assms by (simp add: indexToPosition_def)
  from 1 2 show ?thesis by blast
qed

theorem index_position_inverse_witness:
  "\<exists>index. positionToIndex \<lparr>lines = [''ab'', ''cde''], autoNewLine = [], newLineMode = Auto, emitted = []\<rparr>
              \<lparr>row = 1, column = 2\<rparr> None = Inr index
     \<and> indexToPosition \<lparr>lines = [''ab'', ''cde''], autoNewLine = [], newLineMode = Unix, emitted = []\<rparr>
              index None = Inr \<lparr>row = 1, column = 2\<rparr>"
  using index_position_inverse[of "\<lparr>row = 1, column = 2\<rparr>"
      "\<lparr>lines = [''ab'', ''cde''], autoNewLine = [], newLineMode = Auto, emitted = []\<rparr>"
      "\<lparr>lines = [''ab'', ''cde''], autoNewLine = [], newLineMode = Unix, emitted = []\<rparr>"]
  by (simp add: getLength_def getLine_def getNewLineCharacter_def)

subsection \<open>Removing full lines\<close>

lemma split_rows:
  assumes "r < e" "e < length xs"
  shows "xs = take r xs @ xs ! r # take (e - Suc r) (drop (Suc r) xs) @ xs ! e # drop (Suc e) xs"
proof -
  have r: "r < length xs" using assms by simp
  have "drop (Suc r) xs = take (e - Suc r) (drop (Suc r) xs) @ drop (e - Suc r) (drop (Suc r) xs)"
    by (rule append_take_drop_id[symmetric])
  also have "drop (e - Suc r) (drop (Suc r) xs) = drop e xs" using assms by simp
  also have "drop e xs = xs ! e # drop (Suc e) xs" using assms by (simp add: Cons_nth_drop_Suc)
  finally have "drop (Suc r) xs = take (e - Suc r) (drop (Suc r) xs) @ xs ! e # drop (Suc e) xs" .
  with id_take_nth_drop[OF r] show ?thesis by simp
qed

lemma getLinesForRange_content:
  assumes s: "positionInDocument (lines doc) s" and e: "positionInDocument (lines doc) e"
    and c: "comparePoints s e \<le> 0"
  shows "getLinesForRange doc \<lparr>rstart = s, rend = e\<rparr> = contentBetween (lines doc) s e"
proof (cases "row s = row e")
  case True
  with c have "column s \<le> column e" by (simp add: comparePoints_def)
  with True s e show ?thesis
    by (auto simp add: getLinesForRange_def contentBetween_def getLine_def lineAt_def substring_def
        positionInDocument_def Let_def min_def max_def)
next
  case False
  with c have lt: "row s < row e" by (simp add: comparePoints_def split: if_splits)
  define r where "r = nat (row s)"
  define q where "q = nat (row e)"
  from s e lt have rq: "r < q" "q < length (lines doc)" and rs: "row s = int r" and re: "row e = int q"
    and sc: "0 \<le> column s" and ec: "0 \<le> column e" "column e \<le> int (length (lines doc ! q))"
    by (auto simp: positionInDocument_def r_def q_def)
  define P where "P = take r (lines doc)"
  define Mid where "Mid = take (q - Suc r) (drop (Suc r) (lines doc))"
  define S where "S = drop (Suc q) (lines doc)"
  define l1 where "l1 = lines doc ! r"
  define l2 where "l2 = lines doc ! q"
  have xs: "lines doc = P @ l1 # Mid @ l2 # S"
    unfolding P_def Mid_def S_def l1_def l2_def using rq by (rule split_rows)
  have lP: "length P = r" using rq by (simp add: P_def)
  have lM: "length Mid = q - Suc r" using rq by (simp add: Mid_def)
  have q: "q = length (P @ l1 # Mid)" using lP lM rq by simp
  have sl: "slice (lines doc) (int r) (int q + 1) = l1 # Mid @ [l2]"
  proof -
    have "nat (int q + 1 - int r) = Suc (Suc (length Mid))" using lM rq by simp
    moreover have "int q + 1 \<le> int (length (lines doc))" using rq by simp
    ultimately show ?thesis
      unfolding xs using lP by (simp add: slice_def min_def)
  qed
  have g: "getLinesForRange doc \<lparr>rstart = s, rend = e\<rparr>
             = drop (nat (column s)) l1 # Mid @ [take (nat (column e)) l2]"
  proof -
    have "int (length Mid) + 1 = int q - int r" using lM rq by simp
    moreover have "substring l2 0 (column e) = take (nat (column e)) l2"
      using ec by (simp add: substring_def l2_def min_def max_def)
    moreover have "nat (1 + int (length Mid)) = Suc (length Mid)" by simp
    ultimately show ?thesis
      using False rs re
      by (simp add: getLinesForRange_def getLines_def sl substringFrom_def Let_def)
  qed
  have l1': "lineAt (lines doc) (int r) = l1" unfolding xs lP[symmetric] by (rule lineAt_mid)
  have l2': "lineAt (lines doc) (int q) = l2"
    using lineAt_mid[of "P @ l1 # Mid" l2 S] q xs by simp
  have mid: "take (nat (int q - int r - 1)) (drop (nat (int r + 1)) (lines doc)) = Mid"
  proof -
    have "nat (int q - int r - 1) = q - Suc r" "nat (int r + 1) = Suc r" using rq by simp_all
    then show ?thesis by (simp add: Mid_def)
  qed
  have "contentBetween (lines doc) s e = drop (nat (column s)) l1 # Mid @ [take (nat (column e)) l2]"
    using False by (simp add: contentBetween_def rs re l1' l2' mid)
  with g show ?thesis by simp
qed

lemma removeFullLines_unfold:
  assumes "min (max 0 firstRow) (getLength doc - 1) = int f"
    and "min (max 0 lastRow) (getLength doc - 1) = int l"
    and "s = (if l = length (lines doc) - 1 \<and> 0 < f
              then \<lparr>row = int f - 1, column = int (length (getLine doc (int f - 1)))\<rparr>
              else \<lparr>row = int f, column = 0\<rparr>)"
    and "e = (if l < length (lines doc) - 1 then \<lparr>row = int l + 1, column = 0\<rparr>
              else \<lparr>row = int l, column = int (length (getLine doc (int l)))\<rparr>)"
    and "l < length (lines doc)"
  shows "removeFullLines doc firstRow lastRow =
     (case applyDelta doc \<lparr>dstart = s, dend = e, daction = Remove,
                            dlines = getLinesForRange doc \<lparr>rstart = s, rend = e\<rparr>\<rparr> False of
        Inl err \<Rightarrow> Inl err
      | Inr (_, doc') \<Rightarrow> Inr (slice (lines doc) (int f) (int l + 1), doc'))"
proof -
  have a: "int l = int (length (lines doc)) - 1 \<longleftrightarrow> l = length (lines doc) - 1"
    using assms(5) by linarith
  have b: "int l < int (length (lines doc)) - 1 \<longleftrightarrow> l < length (lines doc) - 1"
    using assms(5) by linarith
  have n1: "int (length (lines doc) - Suc 0) = int (length (lines doc)) - 1"
    using assms(5) by linarith
  show ?thesis
    by (simp only: removeFullLines_def assms(1,2))
       (simp add: Let_def getLength_def a b n1 assms(3,4))
qed

lemma removeFullLines_core:
  assumes fl: "f \<le> l" "l < length (lines doc)"
    and F: "min (max 0 firstRow) (getLength doc - 1) = int f"
    and La: "min (max 0 lastRow) (getLength doc - 1) = int l"
    and s: "s = (if l = length (lines doc) - 1 \<and> 0 < f
              then \<lparr>row = int f - 1, column = int (length (lines doc ! (f - 1)))\<rparr>
              else \<lparr>row = int f, column = 0\<rparr>)"
    and e: "e = (if l < length (lines doc) - 1 then \<lparr>row = int l + 1, column = 0\<rparr>
              else \<lparr>row = int l, column = int (length (lines doc ! l))\<rparr>)"
    and rest: "rest = take f (lines doc) @ drop (Suc l) (lines doc)"
  shows "\<exists>doc'. removeFullLines doc firstRow lastRow
                   = Inr (take (Suc l - f) (drop f (lines doc)), doc')
           \<and> lines doc' = (if rest = [] then [[]] else rest)
           \<and> emitted doc' = emitted doc
                @ (if lines doc = [[]] then []
                   else [Change \<lparr>dstart = s, dend = e, daction = Remove,
                                 dlines = contentBetween (lines doc) s e\<rparr>])"
proof -
  let ?xs = "lines doc"
  let ?d = "\<lparr>dstart = s, dend = e, daction = Remove, dlines = contentBetween ?xs s e\<rparr>"
  have gl: "getLine doc (int l) = ?xs ! l" using fl by (simp add: getLine_def)
  have gf: "0 < f \<Longrightarrow> getLine doc (int f - 1) = ?xs ! (f - 1)"
    using fl by (simp add: getLine_def nat_diff_distrib')
  have s': "s = (if l = length ?xs - 1 \<and> 0 < f
              then \<lparr>row = int f - 1, column = int (length (getLine doc (int f - 1)))\<rparr>
              else \<lparr>row = int f, column = 0\<rparr>)"
    using s gf by simp
  have e': "e = (if l < length ?xs - 1 then \<lparr>row = int l + 1, column = 0\<rparr>
              else \<lparr>row = int l, column = int (length (getLine doc (int l)))\<rparr>)"
    using e gl by simp
  have ps: "positionInDocument ?xs s"
    using fl s by (auto simp: positionInDocument_def nat_diff_distrib')
  have pe: "positionInDocument ?xs e"
    using fl e by (auto simp: positionInDocument_def nat_add_distrib)
  have cmp: "comparePoints s e \<le> 0"
    using fl s e by (auto simp: comparePoints_def)
  have g: "getLinesForRange doc \<lparr>rstart = s, rend = e\<rparr> = contentBetween ?xs s e"
    using ps pe cmp by (rule getLinesForRange_content)
  have v: "validDelta ?xs ?d" using ps pe cmp by (simp add: validDelta_def)
  have del: "slice ?xs (int f) (int l + 1) = take (Suc l - f) (drop f ?xs)"
  proof -
    have "nat (int l + 1 - int f) = Suc l - f" using fl by linarith
    then show ?thesis using fl by (simp add: slice_take_drop)
  qed
  note unf = removeFullLines_unfold[OF F La s' e' fl(2), unfolded g del]
  show ?thesis
  proof (cases "isNoop ?d")
    case True
    then have "s = e" by (simp add: isNoop_def comparePoints_zero_iff)
    with s e fl have one: "l = 0" "f = 0" "\<not> l < length ?xs - 1" "?xs ! 0 = []"
      by (auto split: if_splits)
    then have "length ?xs = 1" using fl by linarith
    with one have xs: "?xs = [[]]" by (cases ?xs) auto
    have "removeFullLines doc firstRow lastRow = Inr (take (Suc l - f) (drop f ?xs), doc)"
      using unf True by (simp add: applyDelta_noop)
    then show ?thesis using xs rest one by simp
  next
    case False
    then have ne: "?xs \<noteq> [[]]" using s e fl
      by (auto simp: isNoop_def comparePoints_def split: if_splits)
    let ?doc' = "signal (Change ?d) (doc\<lparr>lines := spliceLines ?xs ?d\<rparr>)"
    have "applyDelta doc ?d False = Inr (?d, ?doc')"
      by (intro applyDelta_remove_result[OF _ False v]) simp
    then have r: "removeFullLines doc firstRow lastRow = Inr (take (Suc l - f) (drop f ?xs), ?doc')"
      using unf by simp
    have sp: "spliceLines ?xs ?d = (if rest = [] then [[]] else rest)"
    proof (cases "l < length ?xs - 1")
      case True
      then have "drop (Suc l) ?xs = ?xs ! Suc l # drop (Suc (Suc l)) ?xs"
        by (simp add: Cons_nth_drop_Suc)
      moreover have "nat (int l + 1) = Suc l" by simp
      moreover have "int l + 1 < int (length ?xs)" using True by linarith
      ultimately show ?thesis
        using True fl s e rest by (simp add: spliceLines_def Let_def lineAt_def)
    next
      case l: False
      with fl have l': "l = length ?xs - 1" by simp
      have dr: "drop (Suc l) ?xs = []" using l fl by simp
      have el: "e = \<lparr>row = int l, column = int (length (?xs ! l))\<rparr>" using e l by simp
      show ?thesis
      proof (cases "0 < f")
        case True
        have sl: "s = \<lparr>row = int f - 1, column = int (length (?xs ! (f - 1)))\<rparr>"
          using s l' True by simp
        have tk: "take f ?xs = take (f - 1) ?xs @ [?xs ! (f - 1)]"
          using True fl take_Suc_conv_app_nth[of "f - 1" ?xs] by simp
        have n: "nat (int f - 1) = f - 1" using True by simp
        have b: "0 \<le> int f - 1" "int f - 1 < int (length ?xs)" using True fl by simp_all
        have "spliceLines ?xs ?d = take (f - 1) ?xs @ [?xs ! (f - 1)]"
          unfolding sl el using fl b by (simp add: spliceLines_def Let_def lineAt_def n dr)
        then show ?thesis unfolding rest dr tk by simp
      next
        case False
        then have f0: "f = 0" by simp
        have sl: "s = \<lparr>row = 0, column = 0\<rparr>" using s f0 by simp
        have "spliceLines ?xs ?d = [[]]"
          unfolding sl el using fl by (simp add: spliceLines_def Let_def lineAt_def dr)
        then show ?thesis unfolding rest dr f0 by simp
      qed
    qed
    from r sp ne show ?thesis by (simp add: signal_def)
  qed
qed

text \<open>
  Claim C6, as the code has it. With the two rows clipped to the document and the first not
  after the last, \<open>removeFullLines\<close> returns the rows from the first to the last as they
  were and leaves the rows before and after them, or one empty line when no row is left.
  The range it removes starts at the end of the row before the first (the preceding
  newline) when the last row is the last of the document and the first is not row 0;
  otherwise it runs to the start of the row after the last (the following newline) when
  there is one, and to the end of the last row when the whole document goes. Nothing is
  emitted when the document is one empty line.
\<close>

theorem removeFullLines_removes_rows:
  assumes "lines doc \<noteq> []"
    and "min (max 0 firstRow) (getLength doc - 1) \<le> min (max 0 lastRow) (getLength doc - 1)"
  shows "let f = nat (min (max 0 firstRow) (getLength doc - 1));
             l = nat (min (max 0 lastRow) (getLength doc - 1));
             s = (if l = length (lines doc) - 1 \<and> 0 < f
                  then \<lparr>row = int f - 1, column = int (length (lines doc ! (f - 1)))\<rparr>
                  else \<lparr>row = int f, column = 0\<rparr>);
             e = (if l < length (lines doc) - 1 then \<lparr>row = int l + 1, column = 0\<rparr>
                  else \<lparr>row = int l, column = int (length (lines doc ! l))\<rparr>);
             rest = take f (lines doc) @ drop (Suc l) (lines doc)
         in \<exists>doc'. removeFullLines doc firstRow lastRow
                        = Inr (take (Suc l - f) (drop f (lines doc)), doc')
              \<and> lines doc' = (if rest = [] then [[]] else rest)
              \<and> emitted doc' = emitted doc
                   @ (if lines doc = [[]] then []
                      else [Change \<lparr>dstart = s, dend = e, daction = Remove,
                                    dlines = contentBetween (lines doc) s e\<rparr>])"
proof -
  let ?F = "min (max 0 firstRow) (getLength doc - 1)"
  let ?L = "min (max 0 lastRow) (getLength doc - 1)"
  have n: "0 < length (lines doc)" using assms(1) by simp
  have F: "?F = int (nat ?F)" using n by (simp add: getLength_def)
  have La: "?L = int (nat ?L)" using n by (simp add: getLength_def)
  have fl: "nat ?F \<le> nat ?L" using assms(2) by (rule nat_mono)
  have "?L \<le> int (length (lines doc)) - 1" by (simp add: getLength_def)
  then have l: "nat ?L < length (lines doc)" using n by linarith
  show ?thesis
    unfolding Let_def by (rule removeFullLines_core[OF fl l F La refl refl refl])
qed

theorem removeFullLines_removes_rows_witness:
  "\<exists>doc'. removeFullLines \<lparr>lines = [''a'', ''b'', ''c''], autoNewLine = [], newLineMode = Auto, emitted = []\<rparr> 0 0
             = Inr ([''a''], doc')
     \<and> lines doc' = [''b'', ''c'']
     \<and> emitted doc' = [Change \<lparr>dstart = \<lparr>row = 0, column = 0\<rparr>, dend = \<lparr>row = 1, column = 0\<rparr>,
                                 daction = Remove, dlines = [''a'', []]\<rparr>]"
  using removeFullLines_removes_rows[of
      "\<lparr>lines = [''a'', ''b'', ''c''], autoNewLine = [], newLineMode = Auto, emitted = []\<rparr>" 0 0]
  by (simp add: Let_def getLength_def contentBetween_def lineAt_def)

text \<open>
  The claim as the spec states it fails when every row is removed: on the document
  \<open>["a"]\<close> the range removed by \<open>removeFullLines(0, 0)\<close> is the content of row 0 and no
  newline, and the document keeps one row.
\<close>

theorem removeFullLines_whole_document_counterexample:
  "removeFullLines \<lparr>lines = [''a''], autoNewLine = [], newLineMode = Auto, emitted = []\<rparr> 0 0
     = Inr ([''a''],
            \<lparr>lines = [[]], autoNewLine = [], newLineMode = Auto,
             emitted = [Change \<lparr>dstart = \<lparr>row = 0, column = 0\<rparr>, dend = \<lparr>row = 0, column = 1\<rparr>,
                                daction = Remove, dlines = [''a'']\<rparr>]\<rparr>)"
  by (simp add: removeFullLines_def Let_def getLength_def getLine_def getLinesForRange_def
      substring_def applyDelta.simps isNoop_def comparePoints_def applyDeltaPrim_def validDelta_def
      positionInDocument_def contentBetween_def lineAt_def spliceLines_def signal_def slice_def)

subsection \<open>Constructing a document from a text\<close>

lemma splitAcc_plain:
  "CHR 0x0D \<notin> set l \<Longrightarrow> CHR 0x0A \<notin> set l \<Longrightarrow> splitAcc acc (l @ rest) = splitAcc (rev l @ acc) rest"
  by (induction l arbitrary: acc) auto

lemma firstNewLine_plain:
  "CHR 0x0D \<notin> set l \<Longrightarrow> CHR 0x0A \<notin> set l \<Longrightarrow> firstNewLine (l @ rest) = firstNewLine rest"
  by (induction l) auto

lemma join_no_leading_LF:
  assumes "\<forall>l\<in>set ls. CHR 0x0A \<notin> set l"
  shows "case join ls [CHR 0x0D] of [] \<Rightarrow> True | c # _ \<Rightarrow> c \<noteq> CHR 0x0A"
proof (cases ls)
  case Nil
  then show ?thesis by simp
next
  case (Cons x xs)
  show ?thesis
  proof (cases xs)
    case Nil
    with Cons assms show ?thesis by (cases x) auto
  next
    case (Cons y ys)
    with \<open>ls = x # xs\<close> assms show ?thesis by (cases x) auto
  qed
qed

lemma splitAcc_sep:
  assumes "sep = [CHR 0x0A] \<or> sep = [CHR 0x0D, CHR 0x0A]
           \<or> sep = [CHR 0x0D] \<and> (case rest of [] \<Rightarrow> True | c # _ \<Rightarrow> c \<noteq> CHR 0x0A)"
  shows "splitAcc acc (sep @ rest) = rev acc # splitAcc [] rest"
proof (cases rest)
  case Nil
  with assms show ?thesis by auto
next
  case (Cons c cs)
  with assms show ?thesis by auto
qed

lemma firstNewLine_sep:
  assumes "sep = [CHR 0x0A] \<or> sep = [CHR 0x0D, CHR 0x0A]
           \<or> sep = [CHR 0x0D] \<and> (case rest of [] \<Rightarrow> True | c # _ \<Rightarrow> c \<noteq> CHR 0x0A)"
  shows "firstNewLine (sep @ rest) = Some sep"
proof (cases rest)
  case Nil
  with assms show ?thesis by auto
next
  case (Cons c cs)
  with assms show ?thesis by auto
qed

lemma sep_ok:
  assumes "sep \<in> {[CHR 0x0A], [CHR 0x0D, CHR 0x0A], [CHR 0x0D]}"
    and "\<forall>l\<in>set ls. CHR 0x0D \<notin> set l \<and> CHR 0x0A \<notin> set l"
  shows "sep = [CHR 0x0A] \<or> sep = [CHR 0x0D, CHR 0x0A]
           \<or> sep = [CHR 0x0D] \<and> (case join ls sep of [] \<Rightarrow> True | c # _ \<Rightarrow> c \<noteq> CHR 0x0A)"
proof (cases "sep = [CHR 0x0D]")
  case True
  with join_no_leading_LF[of ls] assms(2) show ?thesis by auto
next
  case False
  with assms(1) show ?thesis by auto
qed

lemma splitAcc_join:
  assumes "sep \<in> {[CHR 0x0A], [CHR 0x0D, CHR 0x0A], [CHR 0x0D]}"
  shows "\<forall>l\<in>set (x # xs). CHR 0x0D \<notin> set l \<and> CHR 0x0A \<notin> set l \<Longrightarrow>
         splitAcc acc (join (x # xs) sep) = (rev acc @ x) # xs"
proof (induction xs arbitrary: x acc)
  case Nil
  then show ?case using splitAcc_plain[of x acc "[]"] by simp
next
  case (Cons y ys)
  have free: "CHR 0x0D \<notin> set x" "CHR 0x0A \<notin> set x" using Cons.prems by simp_all
  have rest: "\<forall>l\<in>set (y # ys). CHR 0x0D \<notin> set l \<and> CHR 0x0A \<notin> set l" using Cons.prems by simp
  have "splitAcc acc (join (x # y # ys) sep) = splitAcc (rev x @ acc) (sep @ join (y # ys) sep)"
    using splitAcc_plain[OF free] by simp
  also have "\<dots> = rev (rev x @ acc) # splitAcc [] (join (y # ys) sep)"
    by (rule splitAcc_sep[OF sep_ok[OF assms rest]])
  also have "splitAcc [] (join (y # ys) sep) = y # ys"
    using Cons.IH[OF rest, of "[]"] by simp
  finally show ?case by simp
qed

lemma split_join:
  assumes "sep \<in> {[CHR 0x0A], [CHR 0x0D, CHR 0x0A], [CHR 0x0D]}"
    and "\<forall>l\<in>set ls. CHR 0x0D \<notin> set l \<and> CHR 0x0A \<notin> set l" and "ls \<noteq> []"
  shows "split (join ls sep) = ls"
proof -
  from assms(3) obtain x xs where ls: "ls = x # xs" by (cases ls) auto
  show ?thesis unfolding split_def ls using splitAcc_join[OF assms(1), of x xs "[]"] assms(2) ls by simp
qed

lemma firstNewLine_join:
  assumes "sep \<in> {[CHR 0x0A], [CHR 0x0D, CHR 0x0A], [CHR 0x0D]}"
    and "\<forall>l\<in>set ls. CHR 0x0D \<notin> set l \<and> CHR 0x0A \<notin> set l"
  shows "firstNewLine (join ls sep) = (if 2 \<le> length ls then Some sep else None)"
proof (cases ls)
  case Nil
  then show ?thesis by simp
next
  case (Cons x xs)
  have free: "CHR 0x0D \<notin> set x" "CHR 0x0A \<notin> set x" using Cons assms(2) by simp_all
  show ?thesis
  proof (cases xs)
    case Nil
    with Cons firstNewLine_plain[OF free, of "[]"] show ?thesis by simp
  next
    case c: (Cons y ys)
    have rest: "\<forall>l\<in>set (y # ys). CHR 0x0D \<notin> set l \<and> CHR 0x0A \<notin> set l" using Cons c assms(2) by simp
    have "firstNewLine (join (x # y # ys) sep) = firstNewLine (sep @ join (y # ys) sep)"
      using firstNewLine_plain[OF free] by simp
    also have "\<dots> = Some sep" by (rule firstNewLine_sep[OF sep_ok[OF assms(1) rest]])
    finally show ?thesis using Cons c by simp
  qed
qed

lemma join_Nil_iff:
  assumes "ls \<noteq> []" "sep \<noteq> []" "join ls sep = []"
  shows "ls = [[]]"
proof (cases ls)
  case Nil
  with assms show ?thesis by simp
next
  case (Cons x xs)
  with assms show ?thesis by (cases xs) auto
qed

text \<open>
  Claim C4. A text whose line separators are all the same newline sequence is the lines
  \<open>ls\<close>, none of which holds a carriage return or a line feed, joined by that sequence.
  The document constructed from it (in the default \<open>auto\<close> newline mode) holds exactly
  these lines, and \<open>getValue()\<close> returns the text.
\<close>

theorem Document_getValue_roundtrip:
  assumes sep: "sep \<in> {[CHR 0x0A], [CHR 0x0D, CHR 0x0A], [CHR 0x0D]}"
    and free: "\<forall>l\<in>set ls. CHR 0x0D \<notin> set l \<and> CHR 0x0A \<notin> set l"
    and ne: "ls \<noteq> []"
  shows "\<exists>doc. Document (Text (join ls sep)) = Inr ((), doc)
            \<and> lines doc = ls \<and> getValue doc = join ls sep"
proof (cases "join ls sep = []")
  case True
  have "sep \<noteq> []" using sep by auto
  with ne have "ls = [[]]" using True by (rule join_Nil_iff)
  with True show ?thesis
    by (simp add: Document_def emptyDocument_def getValue_def getAllLines_eq)
next
  case False
  let ?T = "join ls sep"
  let ?nl = "case firstNewLine ?T of Some m \<Rightarrow> m | None \<Rightarrow> [CHR 0x0A]"
  let ?doc0 = "signal ChangeNewLineMode (emptyDocument\<lparr>autoNewLine := ?nl\<rparr>)"
  let ?e = "\<lparr>row = int (length ls) - 1, column = int (length (last ls))\<rparr>"
  let ?d = "\<lparr>dstart = \<lparr>row = 0, column = 0\<rparr>, dend = ?e, daction = Insert, dlines = ls\<rparr>"
  have sp: "split ?T = ls" using sep free ne by (rule split_join)
  have l0: "lines ?doc0 = [[]]" by (simp add: signal_def emptyDocument_def)
  have cp: "clippedPos ?doc0 (Some 0) (Some 0) = \<lparr>row = 0, column = 0\<rparr>"
    by (simp add: clippedPos_def getLength_def getLine_def l0)
  have nn: "\<not> isNoop ?d"
  proof
    assume "isNoop ?d"
    then have "ls = [[]]" using ne by (cases ls) (auto simp: isNoop_def)
    with False show False by simp
  qed
  have len: "1 \<le> length ls" using ne by (cases ls) auto
  have p1: "daction ?d = Insert" by simp
  have p2: "positionInDocument (lines ?doc0) (dstart ?d)"
    by (simp add: l0 positionInDocument_def)
  have p3: "comparePoints (dstart ?d) (dend ?d) \<le> 0"
    using len by (simp add: comparePoints_def)
  have p4: "int (length (dlines ?d)) - 1 = row (dend ?d) - row (dstart ?d)" by simp
  from applyDelta_insert_result[OF p1 nn p2 p3 p4]
  obtain d' doc' where a: "applyDelta ?doc0 ?d False = Inr (d', doc')"
    and l: "lines doc' = spliceLines [[]] ?d"
    and n: "autoNewLine doc' = ?nl" "newLineMode doc' = Auto"
    by (auto simp: l0 signal_def emptyDocument_def)
  have im: "insertMergedLines ?doc0 \<lparr>row = 0, column = 0\<rparr> ls = Inr (clonePos ?e, doc')"
    unfolding insertMergedLines_def Let_def using ne a by (simp add: cp cong: if_cong)
  have "getLength emptyDocument \<le> 1" by (simp add: getLength_def emptyDocument_def)
  then have ins: "insertText emptyDocument \<lparr>row = 0, column = 0\<rparr> ?T = Inr (clonePos ?e, doc')"
    using im by (simp add: insertText_def detectNewLine_def sp)
  have 1: "Document (Text ?T) = Inr ((), doc')"
    using False ins by (simp add: Document_def)
  have 2: "lines doc' = ls"
    unfolding l using ne by (simp add: spliceLines_Insert lineAt_def mergeEnds_empty)
  have nlc: "getNewLineCharacter doc' = ?nl"
    using n sep by (auto simp: getNewLineCharacter_def firstNewLine_join[OF sep free])
  have 3: "getValue doc' = ?T"
  proof (cases "2 \<le> length ls")
    case True
    then show ?thesis
      by (simp add: getValue_def getAllLines_eq 2 nlc firstNewLine_join[OF sep free])
  next
    case f: False
    with len have "length ls = 1" by simp
    then obtain x where "ls = [x]" by (cases ls) auto
    then show ?thesis by (simp add: getValue_def getAllLines_eq 2)
  qed
  from 1 2 3 show ?thesis by blast
qed

theorem Document_getValue_roundtrip_witness:
  "\<exists>doc. Document (Text [CHR ''a'', CHR ''b'', CHR 0x0D, CHR 0x0A, CHR 0x0D, CHR 0x0A, CHR ''c''])
            = Inr ((), doc)
     \<and> lines doc = [''ab'', [], ''c'']
     \<and> getValue doc = [CHR ''a'', CHR ''b'', CHR 0x0D, CHR 0x0A, CHR 0x0D, CHR 0x0A, CHR ''c'']"
  using Document_getValue_roundtrip[of "[CHR 0x0D, CHR 0x0A]" "[''ab'', [], ''c'']"]
  by simp

subsection \<open>The document never has zero lines\<close>

lemma spliceLines_nonempty: "spliceLines xs d \<noteq> []"
  by (cases "daction d") (auto simp: spliceLines_def Let_def mergeEnds_def split: list.splits)

lemma docOf_simps [simp]: "docOf (Inl (e, doc)) = doc" "docOf (Inr (x, doc)) = doc"
  by (simp_all add: docOf_def)

lemma docOf_map:
  "docOf (case r of Inl e \<Rightarrow> Inl e | Inr (x, doc') \<Rightarrow> Inr (g x doc', doc')) = docOf r"
  by (cases r) (auto simp: docOf_def)

lemma nonempty_applyDelta_splitLoop:
  "lines doc \<noteq> [] \<Longrightarrow> lines (docOf (applyDelta doc d v)) \<noteq> []"
  "lines doc0 \<noteq> [] \<Longrightarrow> lines (docOf (splitLoop doc0 d0 m ls r c f t)) \<noteq> []"
proof (induction doc d v and doc0 d0 m ls r c f t rule: applyDelta_splitLoop.induct)
  case (1 doc d v)
  show ?case
  proof (cases "isNoop d")
    case True
    with 1 show ?thesis by (simp add: applyDelta_noop)
  next
    case nn: False
    show ?thesis
    proof (cases "daction d = Insert \<and> 20000 < length (dlines d)")
      case True
      with nn 1 show ?thesis by (subst applyDelta.simps) simp
    next
      case False
      with nn 1(2) show ?thesis
        by (subst applyDelta.simps)
           (auto simp: applyDeltaPrim_def signal_def spliceLines_nonempty)
    qed
  qed
next
  case (2 doc d m ls r c f t)
  show ?case
  proof (cases "f < int (length ls) - m + 1")
    case False
    with 2 show ?thesis by (subst splitLoop.simps) simp
  next
    case True
    show ?thesis
    proof (cases "m \<le> 1")
      case True
      with \<open>f < int (length ls) - m + 1\<close> 2(4) show ?thesis by (subst splitLoop.simps) simp
    next
      case False
      let ?chunk = "\<lparr>dstart = pos (r + f) c, dend = pos (r + (t + (m - 1))) 0, daction = daction d,
                    dlines = slice ls f (t + (m - 1)) @ [[]]\<rparr>"
      have ih1: "lines (docOf (applyDelta doc ?chunk True)) \<noteq> []"
        using 2(1)[OF True False 2(4)] .
      show ?thesis
      proof (cases "applyDelta doc ?chunk True")
        case (Inl e)
        with ih1 True False show ?thesis
          by (subst splitLoop.simps) (cases e, simp)
      next
        case (Inr p)
        obtain d' doc' where p: "p = (d', doc')" by (cases p)
        with Inr ih1 have "lines doc' \<noteq> []" by simp
        from 2(2)[OF True False Inr p[symmetric] this] Inr p True False
        show ?thesis by (subst splitLoop.simps) simp
      qed
    qed
  qed
qed

lemma docOf_case:
  "docOf (case r of Inl e \<Rightarrow> Inl e | Inr (x, doc') \<Rightarrow> Inr (g x, doc')) = docOf r"
  by (cases r) (auto simp: docOf_def)

lemma docOf_case_const:
  "docOf (case r of Inl e \<Rightarrow> Inl e | Inr (x, doc') \<Rightarrow> Inr (k, doc')) = docOf r"
  by (cases r) (auto simp: docOf_def)

lemma nonempty_insertMergedLines:
  "lines doc \<noteq> [] \<Longrightarrow> lines (docOf (insertMergedLines doc p ls)) \<noteq> []"
  by (simp add: insertMergedLines_def Let_def docOf_case_const nonempty_applyDelta_splitLoop(1))

lemma lines_detectNewLine [simp]: "lines (detectNewLine doc t) = lines doc"
  by (simp add: detectNewLine_def signal_def)

lemma nonempty_insertText:
  "lines doc \<noteq> [] \<Longrightarrow> lines (docOf (insertText doc p t)) \<noteq> []"
  by (simp add: insertText_def nonempty_insertMergedLines)

lemma nonempty_insertInLine:
  "lines doc \<noteq> [] \<Longrightarrow> lines (docOf (insertInLine doc p t)) \<noteq> []"
  by (simp add: insertInLine_def Let_def docOf_case_const nonempty_applyDelta_splitLoop(1))

lemma nonempty_insertFullLines:
  "lines doc \<noteq> [] \<Longrightarrow> lines (docOf (insertFullLines doc r ls)) \<noteq> []"
  by (simp add: insertFullLines_def Let_def docOf_case_const nonempty_insertMergedLines)

lemma nonempty_remove:
  "lines doc \<noteq> [] \<Longrightarrow> lines (docOf (remove doc rg)) \<noteq> []"
  by (simp add: remove_def Let_def docOf_case_const nonempty_applyDelta_splitLoop(1))

lemma nonempty_removeInLine:
  "lines doc \<noteq> [] \<Longrightarrow> lines (docOf (removeInLine doc r a b)) \<noteq> []"
  by (simp add: removeInLine_def Let_def docOf_case_const nonempty_applyDelta_splitLoop(1))

lemma nonempty_removeFullLines:
  "lines doc \<noteq> [] \<Longrightarrow> lines (docOf (removeFullLines doc a b)) \<noteq> []"
  by (simp add: removeFullLines_def Let_def docOf_case_const nonempty_applyDelta_splitLoop(1))

lemma nonempty_removeNewLine:
  "lines doc \<noteq> [] \<Longrightarrow> lines (docOf (removeNewLine doc r)) \<noteq> []"
  by (simp add: removeNewLine_def docOf_case_const nonempty_applyDelta_splitLoop(1))

lemma nonempty_replace:
  assumes "lines doc \<noteq> []"
  shows "lines (docOf (replace doc rg t)) \<noteq> []"
proof (cases "remove doc rg")
  case (Inl e)
  with nonempty_remove[OF assms, of rg] assms show ?thesis
    by (cases e) (simp add: replace_def)
next
  case (Inr p)
  obtain x doc' where p: "p = (x, doc')" by (cases p)
  with Inr nonempty_remove[OF assms, of rg] have "lines doc' \<noteq> []" by simp
  with Inr p assms nonempty_insertText[of doc' "rstart rg" t] show ?thesis
    by (simp add: replace_def)
qed

lemma nonempty_setValue:
  assumes "lines doc \<noteq> []"
  shows "lines (docOf (setValue doc t)) \<noteq> []"
proof -
  let ?rg = "\<lparr>rstart = \<lparr>row = 0, column = 0\<rparr>,
              rend = \<lparr>row = getLength doc - 1,
                      column = int (length (getLine doc (getLength doc - 1)))\<rparr>\<rparr>"
  show ?thesis
  proof (cases "remove doc ?rg")
    case (Inl e)
    with nonempty_remove[OF assms, of ?rg] show ?thesis
      by (cases e) (simp add: setValue_def Let_def)
  next
    case (Inr p)
    obtain x doc' where p: "p = (x, doc')" by (cases p)
    with Inr nonempty_remove[OF assms, of ?rg] have "lines doc' \<noteq> []" by simp
    with Inr p nonempty_insertText[of doc' "\<lparr>row = 0, column = 0\<rparr>" t] show ?thesis
      by (simp add: setValue_def Let_def docOf_case_const)
  qed
qed

lemma nonempty_setNewLineMode:
  "lines doc \<noteq> [] \<Longrightarrow> lines (setNewLineMode doc m) \<noteq> []"
  by (simp add: setNewLineMode_def signal_def)

lemma nonempty_applyDeltas:
  "lines doc \<noteq> [] \<Longrightarrow> lines (docOf (applyDeltas doc ds)) \<noteq> []"
proof (induction ds arbitrary: doc)
  case Nil
  then show ?case by simp
next
  case (Cons d ds)
  show ?case
  proof (cases "applyDelta doc d False")
    case (Inl e)
    with nonempty_applyDelta_splitLoop(1)[OF Cons.prems, of d False] show ?thesis
      by (cases e) simp
  next
    case (Inr p)
    obtain x doc' where p: "p = (x, doc')" by (cases p)
    with Inr nonempty_applyDelta_splitLoop(1)[OF Cons.prems, of d False] have "lines doc' \<noteq> []" by simp
    with Inr p Cons.IH show ?thesis by simp
  qed
qed

lemma nonempty_revertDelta:
  "lines doc \<noteq> [] \<Longrightarrow> lines (docOf (revertDelta doc d)) \<noteq> []"
  by (simp add: revertDelta_def safeApplyDelta_def Let_def docOf_case_const
      nonempty_applyDelta_splitLoop(1))

lemma nonempty_revertDeltasFrom:
  "lines doc \<noteq> [] \<Longrightarrow> lines (docOf (revertDeltasFrom doc ds)) \<noteq> []"
proof (induction ds arbitrary: doc)
  case Nil
  then show ?case by simp
next
  case (Cons d ds)
  show ?case
  proof (cases "revertDelta doc d")
    case (Inl e)
    with nonempty_revertDelta[OF Cons.prems, of d] show ?thesis
      by (cases e) simp
  next
    case (Inr p)
    obtain x doc' where p: "p = (x, doc')" by (cases p)
    with Inr nonempty_revertDelta[OF Cons.prems, of d] have "lines doc' \<noteq> []" by simp
    with Inr p Cons.IH show ?thesis by simp
  qed
qed

lemma nonempty_perform: "lines doc \<noteq> [] \<Longrightarrow> lines (perform oper doc) \<noteq> []"
  by (cases oper)
     (simp_all add: nonempty_insertText nonempty_insertInLine nonempty_insertMergedLines
        nonempty_insertFullLines nonempty_remove nonempty_removeInLine nonempty_removeFullLines
        nonempty_removeNewLine nonempty_replace nonempty_setValue nonempty_setNewLineMode
        nonempty_applyDelta_splitLoop(1) nonempty_applyDeltas nonempty_revertDelta
        nonempty_revertDeltasFrom revertDeltas_def)

lemma nonempty_fold_perform: "lines doc \<noteq> [] \<Longrightarrow> lines (fold perform ops doc) \<noteq> []"
  by (induction ops arbitrary: doc) (simp_all add: nonempty_perform)

lemma isl_case:
  "isl (case r of Inl e \<Rightarrow> Inl e | Inr (x, doc') \<Rightarrow> Inr (k, doc')) = isl r"
  by (cases r) auto

lemma clippedPos_in_document:
  assumes "lines doc \<noteq> []"
  shows "positionInDocument (lines doc) (clippedPos doc (Some r) (Some c))"
proof -
  have n: "0 < int (length (lines doc))" using assms by simp
  show ?thesis
    using n by (auto simp: clippedPos_def positionInDocument_def getLength_def getLine_def Let_def)
qed

lemma insertMergedLines_returns:
  assumes "lines doc \<noteq> []" "ls \<noteq> []"
  shows "\<not> isl (insertMergedLines doc p ls)"
proof -
  let ?s = "clippedPos doc (Some (row p)) (Some (column p))"
  let ?e = "\<lparr>row = row ?s + int (length ls) - 1,
             column = (if length ls = 1 then column ?s else 0) + int (length (last ls))\<rparr>"
  let ?d = "\<lparr>dstart = ?s, dend = ?e, daction = Insert, dlines = ls\<rparr>"
  have len: "1 \<le> length ls" using assms(2) by (cases ls) auto
  have "\<not> isl (applyDelta doc ?d False)"
  proof (cases "isNoop ?d")
    case True
    then show ?thesis by (simp add: applyDelta_noop)
  next
    case False
    have p1: "daction ?d = Insert" by simp
    have p2: "positionInDocument (lines doc) (dstart ?d)"
      using clippedPos_in_document[OF assms(1)] by simp
    have p3: "comparePoints (dstart ?d) (dend ?d) \<le> 0"
      using len by (auto simp: comparePoints_def)
    have p4: "int (length (dlines ?d)) - 1 = row (dend ?d) - row (dstart ?d)" by simp
    from applyDelta_insert_result[OF p1 False p2 p3 p4] show ?thesis by auto
  qed
  moreover have "insertMergedLines doc p ls
      = (case applyDelta doc ?d False of
           Inl e \<Rightarrow> Inl e | Inr (_, doc') \<Rightarrow> Inr (clonePos ?e, doc'))"
    by (simp only: insertMergedLines_def Let_def assms(2) if_False)
  ultimately show ?thesis by (metis isl_case)
qed

lemma splitAcc_nonempty: "splitAcc acc t \<noteq> []"
  by (induction acc t rule: splitAcc.induct) (auto split: list.splits)

lemma nonempty_Document: "\<not> isl (Document t) \<and> lines (docOf (Document t)) \<noteq> []"
proof (cases t)
  case (Text tx)
  let ?doc0 = "detectNewLine emptyDocument tx"
  have l0: "lines ?doc0 \<noteq> []" by (simp add: emptyDocument_def)
  have eq: "insertText emptyDocument \<lparr>row = 0, column = 0\<rparr> tx
            = insertMergedLines ?doc0 \<lparr>row = 0, column = 0\<rparr> (split tx)"
    by (simp add: insertText_def getLength_def emptyDocument_def)
  have 1: "\<not> isl (insertText emptyDocument \<lparr>row = 0, column = 0\<rparr> tx)"
    unfolding eq by (rule insertMergedLines_returns[OF l0]) (simp add: split_def splitAcc_nonempty)
  have 2: "lines (docOf (insertText emptyDocument \<lparr>row = 0, column = 0\<rparr> tx)) \<noteq> []"
    by (rule nonempty_insertText) (simp add: emptyDocument_def)
  show ?thesis
  proof (cases "tx = []")
    case True
    with Text show ?thesis by (simp add: Document_def emptyDocument_def)
  next
    case False
    with 1 2 Text show ?thesis
      by (cases "insertText emptyDocument \<lparr>row = 0, column = 0\<rparr> tx")
         (auto simp: Document_def)
  qed
next
  case (Lines ls)
  have l0: "lines emptyDocument \<noteq> []" by (simp add: emptyDocument_def)
  show ?thesis
  proof (cases "ls = []")
    case True
    with Lines l0 show ?thesis by (simp add: Document_def)
  next
    case False
    have 1: "\<not> isl (insertMergedLines emptyDocument \<lparr>row = 0, column = 0\<rparr> ls)"
      by (rule insertMergedLines_returns[OF l0 False])
    have 2: "lines (docOf (insertMergedLines emptyDocument \<lparr>row = 0, column = 0\<rparr> ls)) \<noteq> []"
      by (rule nonempty_insertMergedLines[OF l0])
    from 1 2 Lines False show ?thesis
      by (cases "insertMergedLines emptyDocument \<lparr>row = 0, column = 0\<rparr> ls")
         (auto simp: Document_def)
  qed
qed

text \<open>
  Claim C3. The constructor returns, and after any sequence of operations on the document
  it built (the inserts, the removes, \<open>replace\<close>, \<open>setValue\<close>, \<open>setNewLineMode\<close>,
  \<open>applyDelta\<close> with or without validation, \<open>applyDeltas\<close>, \<open>revertDelta\<close>,
  \<open>revertDeltas\<close>; each may return or throw) \<open>getLength()\<close> is at least 1.
\<close>

theorem getLength_at_least_one:
  "\<not> isl (Document t) \<and> (\<forall>ops. 1 \<le> getLength (fold perform ops (docOf (Document t))))"
proof -
  have "\<And>ops. lines (fold perform ops (docOf (Document t))) \<noteq> []"
    using nonempty_Document[of t] by (intro nonempty_fold_perform) simp
  then have "\<And>ops. 1 \<le> getLength (fold perform ops (docOf (Document t)))"
    unfolding getLength_def by (simp add: Suc_le_eq)
  with nonempty_Document[of t] show ?thesis by blast
qed

text \<open>Removing all three rows of \<open>["a", "b", "c"]\<close> leaves one empty line.\<close>

lemma removing_all_content_leaves_one_line:
  "lines (fold perform [OpRemoveFullLines 0 2]
            (docOf (Document (Lines [''a'', ''b'', ''c''])))) = [[]]"
  by (simp add: Document_def insertMergedLines_def clippedPos_def getLength_def getLine_def
      emptyDocument_def applyDelta.simps isNoop_def applyDeltaPrim_def validDelta_def
      positionInDocument_def comparePoints_def spliceLines_def lineAt_def mergeEnds_def
      signal_def clonePos_def removeFullLines_def getLinesForRange_def getLines_def slice_def
      substringFrom_def substring_def contentBetween_def Let_def)

subsection \<open>\<open>revertDelta\<close> leaves the delta it is given alone\<close>

lemma storeOf_simps [simp]:
  "storeOf (Inl (e, doc, st)) = st" "storeOf (Inr (doc, st)) = st"
  by (simp_all add: storeOf_def)

lemma frame_refl: "frame W st st"
  by (simp add: frame_def)

lemma frame_trans:
  assumes "frame W st st'" "frame W' st' st''" "\<And>i. i < length st \<Longrightarrow> i \<in> W' \<Longrightarrow> i \<in> W"
  shows "frame W st st''"
  using assms unfolding frame_def by (metis le_trans less_le_trans)

lemma frame_append:
  assumes "frame W (st @ xs) st'" "\<And>i. i < length st \<Longrightarrow> i \<notin> W"
  shows "frame {} st st'"
  using assms unfolding frame_def by (auto simp: nth_append)

lemma frame_mono: "frame W st st' \<Longrightarrow> W \<subseteq> W' \<Longrightarrow> frame W' st st'"
  unfolding frame_def by auto

lemma writes_Some: "deltaAt st a = Some (s, e, act, ls) \<Longrightarrow> writes st a = {a, s}"
  by (simp add: writes_def)

lemma writes_None: "deltaAt st a = None \<Longrightarrow> writes st a = {}"
  by (simp add: writes_def)

lemma deltaAt_frame:
  assumes "frame {} st st'" "deltaAt st a = Some x"
  shows "deltaAt st' a = Some x"
  using assms unfolding frame_def deltaAt_def by (auto split: if_splits)

lemma readDelta_deltaAt: "readDelta st a = Some d \<Longrightarrow> \<exists>s e act ls. deltaAt st a = Some (s, e, act, ls)"
  by (auto simp: readDelta_def split: option.splits)

lemma writes_fresh:
  "writes (st @ [p1, p2, DeltaObj (length st) e act ls]) (Suc (Suc (length st)))
     = {Suc (Suc (length st)), length st}"
  by (simp add: writes_def deltaAt_def nth_append)

lemma frame_applyDeltaS_splitLoopS:
  "frame (writes st a) st (storeOf (applyDeltaS st doc a v))"
  "frame (writes st a) st (storeOf (splitLoopS st doc a m ls r c f t))"
proof (induction st doc a v and st doc a m ls r c f t rule: applyDeltaS_splitLoopS.induct)
  case (1 st doc a v)
  show ?case
  proof (cases "readDelta st a")
    case None
    then show ?thesis by (simp add: applyDeltaS.simps frame_refl)
  next
    case (Some d)
    show ?thesis
    proof (cases "isNoop d")
      case True
      with Some show ?thesis by (simp add: applyDeltaS.simps frame_refl)
    next
      case nn: False
      show ?thesis
      proof (cases "daction d = Insert \<and> length (dlines d) > 20000")
        case True
        from 1 [OF Some nn True] Some nn True show ?thesis
          by (simp add: applyDeltaS.simps)
      next
        case False
        with Some nn show ?thesis
          by (auto simp: applyDeltaS.simps frame_refl split: sum.splits)
      qed
    qed
  qed
next
  case (2 st doc a m ls r c f t)
  show ?case
  proof (cases "deltaAt st a")
    case None
    then show ?thesis by (simp add: splitLoopS.simps frame_refl)
  next
    case (Some x)
    obtain s e act z where x: "x = (s, e, act, z)" by (cases x) auto
    note da = Some [unfolded x]
    have W: "writes st a = {a, s}" using da by (rule writes_Some)
    have alt: "a < length st" using da by (auto simp: deltaAt_def split: if_splits)
    show ?thesis
    proof (cases "f < int (length ls) - m + 1")
      case loop: True
      show ?thesis
      proof (cases "m \<le> 1")
        case True
        with da loop show ?thesis by (simp add: splitLoopS.simps frame_refl)
      next
        case m: False
        let ?st3 = "st @ [PointObj (pos (r + f) c), PointObj (pos (r + (t + (m - 1))) 0),
                         DeltaObj (length st) (length st + 1) act (slice ls f (t + (m - 1)) @ [[]])]"
        let ?inner = "applyDeltaS ?st3 doc (length st + 2) True"
        have ih1: "frame (writes ?st3 (length st + 2)) ?st3 (storeOf ?inner)"
          by (rule 2(1) [OF da refl refl refl loop m])
        have fr0: "frame {} st (storeOf ?inner)"
          by (rule frame_append [OF ih1]) (simp add: writes_fresh)
        show ?thesis
        proof (cases ?inner)
          case (Inl err)
          obtain e1 d1 s1 where err: "err = (e1, d1, s1)" by (cases err) auto
          from fr0 Inl err have "frame {} st s1" by simp
          then have "frame {a, s} st s1" by (rule frame_mono) simp
          with da loop m Inl err W show ?thesis by (simp add: splitLoopS.simps)
        next
          case (Inr ok)
          obtain doc' st' where ok: "ok = (doc', st')" by (cases ok) auto
          from fr0 Inr ok have fr1: "frame {} st st'" by simp
          have da': "deltaAt st' a = Some (s, e, act, z)" by (rule deltaAt_frame [OF fr1 da])
          have ih2: "frame (writes st' a) st' (storeOf (splitLoopS st' doc' a m ls r 0 (t + (m - 1)) (t + (m - 1))))"
            by (rule 2(2) [OF da refl refl refl loop m Inr [unfolded ok] refl])
          have "frame {a, s} st (storeOf (splitLoopS st' doc' a m ls r 0 (t + (m - 1)) (t + (m - 1))))"
            using fr1 ih2 [unfolded writes_Some [OF da']]
            unfolding frame_def by (metis empty_iff le_trans less_le_trans)
          with da loop m Inr ok W show ?thesis by (simp add: splitLoopS.simps)
        qed
      qed
    next
      case exit: False
      let ?st1 = "st[a := DeltaObj s e act (sliceFrom ls f)]"
      have fr1: "frame {a, s} st ?st1" by (simp add: frame_def)
      show ?thesis
      proof (cases "pointAt ?st1 s")
        case None
        with da exit W fr1 show ?thesis by (simp add: splitLoopS.simps)
      next
        case (Some p)
        let ?st2 = "?st1[s := PointObj (p\<lparr>row := r + f, column := c\<rparr>)]"
        have sa: "s \<noteq> a" using Some alt by (auto simp: pointAt_def split: if_splits)
        have da2: "deltaAt ?st2 a = Some (s, e, act, sliceFrom ls f)"
          using sa alt by (simp add: deltaAt_def)
        have ih3: "frame (writes ?st2 a) ?st2 (storeOf (applyDeltaS ?st2 doc a True))"
          by (rule 2(3) [OF da refl refl refl exit Some])
        have fr2: "frame {a, s} st ?st2" by (simp add: frame_def)
        have "frame {a, s} st (storeOf (applyDeltaS ?st2 doc a True))"
          by (rule frame_trans [OF fr2 ih3 [unfolded writes_Some [OF da2]]])
        with da exit W Some show ?thesis by (simp add: splitLoopS.simps)
      qed
    qed
  qed
qed

lemma frame_safeApplyDeltaS: "frame (writes st a) st (storeOf (safeApplyDeltaS st doc a))"
  by (auto simp: safeApplyDeltaS_def Let_def frame_refl frame_applyDeltaS_splitLoopS(1)
           split: option.splits)

lemma sim_simps [simp]:
  "sim (Inl (err, doc')) (Inl (err2, doc2, st')) a \<longleftrightarrow> err2 = err \<and> doc2 = doc'"
  "sim (Inr (d', doc')) (Inr (doc2, st')) a \<longleftrightarrow> doc2 = doc' \<and> readDelta st' a = Some d'"
  "\<not> sim (Inl x) (Inr y) a"
  "\<not> sim (Inr u) (Inl w) a"
  by (auto simp: sim_def split: prod.splits)

lemma pointAt_frame:
  assumes "frame {} st st'" "pointAt st a = Some x"
  shows "pointAt st' a = Some x"
  using assms unfolding frame_def pointAt_def by (auto split: if_splits)

lemma readDelta_SomeD:
  assumes "readDelta st a = Some d"
  obtains s e where "deltaAt st a = Some (s, e, daction d, dlines d)"
    "pointAt st s = Some (dstart d)" "pointAt st e = Some (dend d)"
  using assms by (auto simp: readDelta_def split: option.splits)

lemma readDelta_SomeI:
  assumes "deltaAt st a = Some (s, e, act, ls)" "pointAt st s = Some ps" "pointAt st e = Some pe"
  shows "readDelta st a = Some \<lparr>dstart = ps, dend = pe, daction = act, dlines = ls\<rparr>"
  using assms by (simp add: readDelta_def)

lemma readDelta_fresh:
  "readDelta (st @ [PointObj p1, PointObj p2, DeltaObj (length st) (length st + 1) act ls]) (length st + 2)
     = Some \<lparr>dstart = p1, dend = p2, daction = act, dlines = ls\<rparr>"
  by (simp add: readDelta_def deltaAt_def pointAt_def nth_append)

lemma aliasFree_fresh:
  "aliasFree (st @ [PointObj p1, PointObj p2, DeltaObj (length st) (length st + 1) act ls]) (length st + 2)"
  by (simp add: aliasFree_def deltaAt_def nth_append)

lemma frame_fresh:
  assumes "frame (writes (st @ [p1, p2, DeltaObj (length st) (length st + 1) act ls]) (length st + 2))
             (st @ [p1, p2, DeltaObj (length st) (length st + 1) act ls]) st'"
  shows "frame {} st st'"
  by (rule frame_append [OF assms]) (simp add: writes_fresh)

lemma sim_applyDeltaS_splitLoopS:
  "readDelta st a = Some d \<Longrightarrow> aliasFree st a \<Longrightarrow> sim (applyDelta doc d v) (applyDeltaS st doc a v) a"
  "deltaAt st a = Some (s, e, daction d, z) \<Longrightarrow> pointAt st s = Some (dstart d) \<Longrightarrow>
   pointAt st e = Some (dend d) \<Longrightarrow> s \<noteq> e \<Longrightarrow>
   sim (splitLoop doc d m ls r c f t) (splitLoopS st doc a m ls r c f t) a"
proof (induction st doc a v and st doc a m ls r c f t arbitrary: d and d s e z
       rule: applyDeltaS_splitLoopS.induct)
  case (1 st doc a v)
  note rd = \<open>readDelta st a = Some d\<close>
  from rd obtain s e where da: "deltaAt st a = Some (s, e, daction d, dlines d)"
    and ps: "pointAt st s = Some (dstart d)" and pe: "pointAt st e = Some (dend d)"
    by (rule readDelta_SomeD)
  from \<open>aliasFree st a\<close> da have ne: "s \<noteq> e" by (simp add: aliasFree_def)
  show ?case
  proof (cases "isNoop d")
    case True
    with rd show ?thesis by (simp add: applyDeltaS.simps applyDelta.simps)
  next
    case nn: False
    show ?thesis
    proof (cases "daction d = Insert \<and> length (dlines d) > 20000")
      case True
      have "sim (splitLoop doc d 20000 (dlines d) (row (dstart d)) (column (dstart d)) 0 0)
                (splitLoopS st doc a 20000 (dlines d) (row (dstart d)) (column (dstart d)) 0 0) a"
        by (rule "1.IH" [OF rd nn True da ps pe ne])
      with rd nn True show ?thesis by (simp add: applyDeltaS.simps applyDelta.simps)
    next
      case False
      with rd nn show ?thesis
        by (auto simp: applyDeltaS.simps applyDelta.simps split: sum.splits)
    qed
  qed
next
  case (2 st doc a m ls r c f t)
  note da = \<open>deltaAt st a = Some (s, e, daction d, z)\<close>
  note ps = \<open>pointAt st s = Some (dstart d)\<close>
  note pe = \<open>pointAt st e = Some (dend d)\<close>
  note ne = \<open>s \<noteq> e\<close>
  have alt: "a < length st" using da by (auto simp: deltaAt_def split: if_splits)
  have slt: "s < length st" using ps by (auto simp: pointAt_def split: if_splits)
  have elt: "e < length st" using pe by (auto simp: pointAt_def split: if_splits)
  have sa: "s \<noteq> a" using ps da by (auto simp: pointAt_def deltaAt_def split: if_splits obj.splits)
  have ea: "e \<noteq> a" using pe da by (auto simp: pointAt_def deltaAt_def split: if_splits obj.splits)
  show ?case
  proof (cases "f < int (length ls) - m + 1")
    case loop: True
    show ?thesis
    proof (cases "m \<le> 1")
      case True
      with da loop show ?thesis by (simp add: splitLoopS.simps splitLoop.simps)
    next
      case m: False
      define cd where "cd = \<lparr>dstart = pos (r + f) c, dend = pos (r + (t + (m - 1))) 0,
                              daction = daction d, dlines = slice ls f (t + (m - 1)) @ [[]]\<rparr>"
      define st3 where "st3 = st @ [PointObj (pos (r + f) c), PointObj (pos (r + (t + (m - 1))) 0),
                         DeltaObj (length st) (length st + 1) (daction d) (slice ls f (t + (m - 1)) @ [[]])]"
      have rd3: "readDelta st3 (length st + 2) = Some cd"
        unfolding st3_def cd_def by (rule readDelta_fresh)
      have af3: "aliasFree st3 (length st + 2)"
        unfolding st3_def by (rule aliasFree_fresh)
      have ih1: "sim (applyDelta doc cd True) (applyDeltaS st3 doc (length st + 2) True) (length st + 2)"
        by (rule "2.IH"(1) [OF da refl refl refl loop m, folded st3_def, OF rd3 af3])
      have "frame (writes st3 (length st + 2)) st3 (storeOf (applyDeltaS st3 doc (length st + 2) True))"
        by (rule frame_applyDeltaS_splitLoopS(1))
      then have fr0: "frame {} st (storeOf (applyDeltaS st3 doc (length st + 2) True))"
        unfolding st3_def by (rule frame_fresh)
      have vs: "splitLoop doc d m ls r c f t =
                  (case applyDelta doc cd True of
                     Inl e \<Rightarrow> Inl e
                   | Inr (_, doc') \<Rightarrow> splitLoop doc' d m ls r 0 (t + (m - 1)) (t + (m - 1)))"
        using loop m by (simp add: splitLoop.simps cd_def)
      have ss: "splitLoopS st doc a m ls r c f t =
                  (case applyDeltaS st3 doc (length st + 2) True of
                     Inl err \<Rightarrow> Inl err
                   | Inr (doc', st') \<Rightarrow> splitLoopS st' doc' a m ls r 0 (t + (m - 1)) (t + (m - 1)))"
        using loop m da by (simp add: splitLoopS.simps st3_def)
      show ?thesis
      proof (cases "applyDeltaS st3 doc (length st + 2) True")
        case (Inl err)
        with ih1 show ?thesis
          unfolding vs ss by (auto simp: sim_def split: sum.splits prod.splits)
      next
        case (Inr ok)
        obtain doc1 st1 where ok: "ok = (doc1, st1)" by (cases ok) auto
        note inner = Inr [unfolded ok]
        from ih1 inner obtain d1 where v1: "applyDelta doc cd True = Inr (d1, doc1)"
          by (auto simp: sim_def split: sum.splits prod.splits)
        from fr0 inner have fr1: "frame {} st st1" by simp
        have ih2: "sim (splitLoop doc1 d m ls r 0 (t + (m - 1)) (t + (m - 1)))
                       (splitLoopS st1 doc1 a m ls r 0 (t + (m - 1)) (t + (m - 1))) a"
          by (rule "2.IH"(2) [OF da refl refl refl loop m inner [unfolded st3_def] refl
                deltaAt_frame [OF fr1 da] pointAt_frame [OF fr1 ps] pointAt_frame [OF fr1 pe] ne])
        show ?thesis unfolding vs ss v1 inner using ih2 by simp
      qed
    qed
  next
    case exit: False
    define st1 where "st1 = st[a := DeltaObj s e (daction d) (sliceFrom ls f)]"
    have p1: "pointAt st1 s = Some (dstart d)"
      using ps sa slt unfolding st1_def by (simp add: pointAt_def)
    define st2 where "st2 = st1[s := PointObj ((dstart d)\<lparr>row := r + f, column := c\<rparr>)]"
    define d2 where "d2 = d\<lparr>dlines := sliceFrom ls f, dstart := (dstart d)\<lparr>row := r + f, column := c\<rparr>\<rparr>"
    have da2: "deltaAt st2 a = Some (s, e, daction d, sliceFrom ls f)"
      using sa alt unfolding st2_def st1_def by (simp add: deltaAt_def)
    have ps2: "pointAt st2 s = Some ((dstart d)\<lparr>row := r + f, column := c\<rparr>)"
      using slt unfolding st2_def st1_def by (simp add: pointAt_def)
    have pe2: "pointAt st2 e = Some (dend d)"
      using pe ne ea elt unfolding st2_def st1_def by (simp add: pointAt_def)
    have rd2: "readDelta st2 a = Some d2"
      unfolding d2_def by (simp add: readDelta_SomeI [OF da2 ps2 pe2])
    have af2: "aliasFree st2 a" using da2 ne by (simp add: aliasFree_def)
    have ih3: "sim (applyDelta doc d2 True) (applyDeltaS st2 doc a True) a"
      by (rule "2.IH"(3) [OF da refl refl refl exit p1 [unfolded st1_def],
            folded st1_def, folded st2_def, OF rd2 af2])
    have vs: "splitLoop doc d m ls r c f t = applyDelta doc d2 True"
      using exit by (simp add: splitLoop.simps d2_def)
    have ss: "splitLoopS st doc a m ls r c f t = applyDeltaS st2 doc a True"
      using exit da p1 by (simp add: splitLoopS.simps st2_def st1_def)
    show ?thesis unfolding vs ss by (rule ih3)
  qed
qed


lemma readDelta_frame:
  assumes "frame {} st st'" "readDelta st a = Some d"
  shows "readDelta st' a = Some d"
proof -
  from assms(2) obtain s e where da: "deltaAt st a = Some (s, e, daction d, dlines d)"
    and ps: "pointAt st s = Some (dstart d)" and pe: "pointAt st e = Some (dend d)"
    by (rule readDelta_SomeD)
  show ?thesis
    using readDelta_SomeI [OF deltaAt_frame [OF assms(1) da] pointAt_frame [OF assms(1) ps]
        pointAt_frame [OF assms(1) pe]]
    by simp
qed

lemma applyDeltaS_large_writes_delta:
  assumes "readDelta st a = Some d" "aliasFree st a" "daction d = Insert" "length (dlines d) > 20000"
  shows "\<exists>d'. readDelta (storeOf (applyDeltaS st doc a v)) a = Some d'
           \<and> length (dlines d') < 20000 \<and> row (dstart d') > row (dstart d)"
proof -
  from applyDelta_large_delta [OF assms(3,4), of doc v]
  obtain d' doc' where v: "applyDelta doc d v = Inr (d', doc')"
    and l: "length (dlines d') < 20000" and r: "row (dstart d') > row (dstart d)"
    by auto
  from sim_applyDeltaS_splitLoopS(1) [OF assms(1,2), of doc v]
  have "readDelta (storeOf (applyDeltaS st doc a v)) a = Some d'"
    unfolding v by (cases "applyDeltaS st doc a v") auto
  with l r show ?thesis by blast
qed

lemma revertDeltaS_refines:
  assumes "readDelta st a = Some d"
  shows "map_sum (\<lambda>(err, doc', _). (err, doc')) (\<lambda>(doc', _). ((), doc')) (revertDeltaS st doc a)
           = revertDelta doc d"
proof -
  define rd where "rd = \<lparr>dstart = clonePos (dstart d), dend = clonePos (dend d),
              daction = (if daction d = Insert then Remove else Insert),
              dlines = sliceFrom (dlines d) 0\<rparr>"
  define st3 where "st3 = st @ [PointObj (clonePos (dstart d)), PointObj (clonePos (dend d)),
                   DeltaObj (length st) (length st + 1)
                     (if daction d = Insert then Remove else Insert) (sliceFrom (dlines d) 0)]"
  have rd3: "readDelta st3 (length st + 2) = Some rd"
    unfolding st3_def rd_def by (rule readDelta_fresh)
  have af3: "aliasFree st3 (length st + 2)"
    unfolding st3_def by (rule aliasFree_fresh)
  have s: "sim (applyDelta doc rd False) (applyDeltaS st3 doc (length st + 2) False) (length st + 2)"
    by (rule sim_applyDeltaS_splitLoopS(1) [OF rd3 af3])
  have a: "map_sum (\<lambda>(err, doc', _). (err, doc')) (\<lambda>(doc', _). ((), doc'))
             (applyDeltaS st3 doc (length st + 2) False)
           = (case applyDelta doc rd False of Inl e \<Rightarrow> Inl e | Inr (_, doc') \<Rightarrow> Inr ((), doc'))"
    using s by (cases "applyDelta doc rd False"; cases "applyDeltaS st3 doc (length st + 2) False")
      (auto simp: sim_def split: prod.splits)
  have l: "revertDeltaS st doc a = safeApplyDeltaS st3 doc (length st + 2)"
    using assms by (simp add: revertDeltaS_def st3_def)
  have r: "revertDelta doc d = (case safeApplyDelta doc rd of Inl e \<Rightarrow> Inl e | Inr (_, doc') \<Rightarrow> Inr ((), doc'))"
    by (simp add: revertDelta_def rd_def)
  show ?thesis
    unfolding l r safeApplyDeltaS_def safeApplyDelta_def rd3 Let_def option.case
    using a by (simp cong: if_cong)
qed

text \<open>
  Claim C10. \<open>revertDelta\<close> on the delta at address \<open>a\<close> leaves every object that was in
  the store as it was, the delta and its two points among them, so the delta read at \<open>a\<close>
  after the call is the delta read before it. This holds whether the inverse is applied,
  dropped as stale, split by the chunking loop (which assigns only to the copy), or the
  call throws.
\<close>

theorem revertDelta_leaves_delta:
  "take (length st) (storeOf (revertDeltaS st doc a)) = st
   \<and> readDelta (storeOf (revertDeltaS st doc a)) a = readDelta st a"
proof (cases "readDelta st a")
  case None
  then show ?thesis by (simp add: revertDeltaS_def)
next
  case (Some d)
  let ?st3 = "st @ [PointObj (clonePos (dstart d)), PointObj (clonePos (dend d)),
                   DeltaObj (length st) (length st + 1)
                     (if daction d = Insert then Remove else Insert) (sliceFrom (dlines d) 0)]"
  let ?st' = "storeOf (safeApplyDeltaS ?st3 doc (length st + 2))"
  have "frame (writes ?st3 (length st + 2)) ?st3 ?st'"
    by (rule frame_safeApplyDeltaS)
  then have fr: "frame {} st ?st'"
    by (rule frame_append) (simp add: writes_fresh)
  then have "take (length st) ?st' = st"
    unfolding frame_def by (auto intro: nth_equalityI)
  moreover have "readDelta ?st' a = Some d" by (rule readDelta_frame [OF fr Some])
  ultimately show ?thesis using Some by (simp add: revertDeltaS_def)
qed

text \<open>
  Reverting the insert of \<open>"a"\<close> at the start of the one-line document \<open>"a"\<close>: the three
  objects of the delta stay, and the inverse is built from three new ones.
\<close>

lemma revertDeltaS_example:
  "revertDeltaS [PointObj \<lparr>row = 0, column = 0\<rparr>, PointObj \<lparr>row = 0, column = 1\<rparr>,
                 DeltaObj 0 1 Insert [''a'']]
     (emptyDocument\<lparr>lines := [''a'']\<rparr>) 2
   = Inr (signal (Change \<lparr>dstart = \<lparr>row = 0, column = 0\<rparr>, dend = \<lparr>row = 0, column = 1\<rparr>,
                           daction = Remove, dlines = [''a'']\<rparr>) (emptyDocument\<lparr>lines := [[]]\<rparr>),
          [PointObj \<lparr>row = 0, column = 0\<rparr>, PointObj \<lparr>row = 0, column = 1\<rparr>,
           DeltaObj 0 1 Insert [''a''],
           PointObj \<lparr>row = 0, column = 0\<rparr>, PointObj \<lparr>row = 0, column = 1\<rparr>,
           DeltaObj 3 4 Remove [''a'']])"
  by code_simp

end
